theory Spec2Isabelle
  imports Complex_Main
begin

section \<open>The ledger store\<close>

text \<open>
  The three tables of the MySQL schema. A \<open>DECIMAL(12,2)\<close> column holds a whole number
  of hundredths, an \<open>int\<close> between -999999999999 and 999999999999; an \<open>INT\<close> column
  holds a whole number of 32 bits. Dates are points of a clock that the caller of a
  handler supplies (\<open>CURRENT_TIMESTAMP\<close>). A string is the list of its UTF-16 code
  units, as in JavaScript, and is taken to fit its column.
\<close>

type_synonym js_string = "nat list"

datatype order_status = Pending | Paid

record customer =
  c_id :: nat
  c_name :: js_string
  c_phone :: "js_string option"
  current_balance :: int
  created_at :: nat

record order =
  o_id :: nat
  o_customer_id :: nat
  quantity :: int
  unit_price :: int
  total_price :: int
  status :: order_status
  order_date :: nat
  order_group_id :: "js_string option"

record payment =
  p_id :: nat
  p_customer_id :: nat
  amount :: int
  payment_date :: nat
  p_note :: "js_string option"

text \<open>
  A table is the list of its rows in insertion order. Each table has its
  \<open>AUTO_INCREMENT\<close> counter, the id that the next inserted row gets. \<open>strict_mode\<close> is
  the SQL mode of the server: in strict mode (the default of MySQL) a value out of the
  range of its column is refused, otherwise it is stored as the nearest end of the range.
\<close>

record db =
  customers :: "customer list"
  orders :: "order list"
  payments :: "payment list"
  customers_auto_increment :: nat
  orders_auto_increment :: nat
  payments_auto_increment :: nat
  strict_mode :: bool

definition empty_db :: "bool \<Rightarrow> db" where
  "empty_db strict = \<lparr>customers = [], orders = [], payments = [],
     customers_auto_increment = 1, orders_auto_increment = 1, payments_auto_increment = 1,
     strict_mode = strict\<rparr>"

subsection \<open>Numbers\<close>

text \<open>
  A number of a request body reaches the store as the decimal literal that the driver
  writes into the statement: an exact value, here a \<open>rat\<close>. Storing it in a column
  rounds it to the scale of the column, half away from zero, and then checks the range.
\<close>

datatype store_error = ForeignKeyViolation | NullViolation | OutOfRange | StoreFault

definition and_then :: "'e + 'a \<Rightarrow> ('a \<Rightarrow> 'e + 'b) \<Rightarrow> 'e + 'b" where
  "and_then r f = (case r of Inl e \<Rightarrow> Inl e | Inr x \<Rightarrow> f x)"

definition round_half_away :: "rat \<Rightarrow> int" where
  "round_half_away x = (if 0 \<le> x then \<lfloor>x + 1 / 2\<rfloor> else \<lceil>x - 1 / 2\<rceil>)"

definition into_range :: "bool \<Rightarrow> int \<Rightarrow> int \<Rightarrow> int \<Rightarrow> store_error + int" where
  "into_range strict lo hi v =
     (if lo \<le> v \<and> v \<le> hi then Inr v
      else if strict then Inl OutOfRange
      else Inr (if v < lo then lo else hi))"

definition decimal_max :: int where
  "decimal_max = 999999999999"

text \<open>The hundredths that a \<open>DECIMAL(12,2)\<close> column holds for a value.\<close>

definition to_decimal :: "bool \<Rightarrow> rat \<Rightarrow> store_error + int" where
  "to_decimal strict x = into_range strict (- decimal_max) decimal_max (round_half_away (x * 100))"

text \<open>The whole number that an \<open>INT\<close> column holds for a value.\<close>

definition to_int :: "bool \<Rightarrow> rat \<Rightarrow> store_error + int" where
  "to_int strict x = into_range strict (- 2147483648) 2147483647 (round_half_away x)"

text \<open>The value of a \<open>DECIMAL(12,2)\<close> column in an expression.\<close>

definition decimal_value :: "int \<Rightarrow> rat" where
  "decimal_value v = of_int v / 100"

subsection \<open>Statements\<close>

text \<open>
  A statement either is refused by the store or gives a result and the new tables.
  \<open>ForeignKeyViolation\<close>, \<open>NullViolation\<close> and \<open>OutOfRange\<close> are decided by the schema
  (\<open>FOREIGN KEY ... ON DELETE RESTRICT\<close>, \<open>NOT NULL\<close>, the column types); \<open>StoreFault\<close>
  stands for every other rejection of a promise (\<open>await\<close>) by the driver, such as a
  lost connection.
\<close>

type_synonym 'a statement = "db \<Rightarrow> store_error + 'a \<times> db"

definition has_customer :: "nat \<Rightarrow> db \<Rightarrow> bool" where
  "has_customer k d = (k \<in> set (map c_id (customers d)))"

text \<open>\<open>INSERT INTO customers (name, phone) VALUES (?, ?)\<close>; the balance defaults to 0.\<close>

definition insert_customer :: "nat \<Rightarrow> js_string \<Rightarrow> js_string option \<Rightarrow> nat statement" where
  "insert_customer now nm ph d =
     Inr (customers_auto_increment d,
          d\<lparr>customers := customers d @
               [\<lparr>c_id = customers_auto_increment d, c_name = nm, c_phone = ph,
                 current_balance = 0, created_at = now\<rparr>],
            customers_auto_increment := Suc (customers_auto_increment d)\<rparr>)"

text \<open>\<open>SELECT * FROM customers WHERE id = ?\<close>\<close>

definition select_customer :: "nat \<Rightarrow> customer list statement" where
  "select_customer k d = Inr (filter (\<lambda>c. c_id c = k) (customers d), d)"

text \<open>\<open>UPDATE customers SET name = ?, phone = ? WHERE id = ?\<close>; the result is \<open>affectedRows\<close>.\<close>

definition update_customer :: "js_string \<Rightarrow> js_string option \<Rightarrow> nat \<Rightarrow> nat statement" where
  "update_customer nm ph k d =
     Inr (length (filter (\<lambda>c. c_id c = k) (customers d)),
          d\<lparr>customers :=
               map (\<lambda>c. if c_id c = k then c\<lparr>c_name := nm, c_phone := ph\<rparr> else c) (customers d)\<rparr>)"

text \<open>\<open>SELECT COUNT(*) AS cnt FROM orders WHERE customer_id = ?\<close>, and the same on payments.\<close>

definition count_orders :: "nat \<Rightarrow> nat statement" where
  "count_orders k d = Inr (length (filter (\<lambda>r. o_customer_id r = k) (orders d)), d)"

definition count_payments :: "nat \<Rightarrow> nat statement" where
  "count_payments k d = Inr (length (filter (\<lambda>p. p_customer_id p = k) (payments d)), d)"

text \<open>
  \<open>DELETE FROM customers WHERE id = ?\<close>; the foreign keys of orders and payments restrict
  it. The result is \<open>affectedRows\<close>.
\<close>

definition delete_customer_row :: "nat \<Rightarrow> nat statement" where
  "delete_customer_row k d =
     (if has_customer k d \<and>
         (k \<in> set (map o_customer_id (orders d)) \<or> k \<in> set (map p_customer_id (payments d)))
      then Inl ForeignKeyViolation
      else Inr (length (filter (\<lambda>c. c_id c = k) (customers d)),
                d\<lparr>customers := filter (\<lambda>c. c_id c \<noteq> k) (customers d)\<rparr>))"

text \<open>
  \<open>INSERT INTO orders (customer_id, quantity, unit_price, total_price, order_group_id)\<close>:
  the status defaults to \<open>pending\<close>. A field that the request leaves out is bound as
  \<open>NULL\<close>, which the four \<open>NOT NULL\<close> columns refuse. Each number is stored in its
  column, \<open>customer_id\<close> and \<open>quantity\<close> as \<open>INT\<close>, the prices as \<open>DECIMAL(12,2)\<close>; the
  foreign key refuses a customer that does not exist. The result is \<open>insertId\<close>.
\<close>

definition insert_order ::
  "nat \<Rightarrow> rat option \<Rightarrow> rat option \<Rightarrow> rat option \<Rightarrow> rat option \<Rightarrow> js_string option \<Rightarrow> nat statement" where
  "insert_order now cid qty up tp grp d =
     (case (cid, qty, up, tp) of
        (Some c, Some q, Some u, Some t) \<Rightarrow>
          and_then (to_int (strict_mode d) c) (\<lambda>k.
          and_then (to_int (strict_mode d) q) (\<lambda>q'.
          and_then (to_decimal (strict_mode d) u) (\<lambda>u'.
          and_then (to_decimal (strict_mode d) t) (\<lambda>t'.
            if 0 \<le> k \<and> has_customer (nat k) d
            then Inr (orders_auto_increment d,
                      d\<lparr>orders := orders d @
                           [\<lparr>o_id = orders_auto_increment d, o_customer_id = nat k,
                             quantity = q', unit_price = u', total_price = t', status = Pending,
                             order_date = now, order_group_id = grp\<rparr>],
                        orders_auto_increment := Suc (orders_auto_increment d)\<rparr>)
            else Inl ForeignKeyViolation))))
      | _ \<Rightarrow> Inl NullViolation)"

text \<open>
  \<open>UPDATE customers SET current_balance = f(current_balance) WHERE id = ?\<close>, row by row:
  the new value of each row with the id is computed exactly and stored in the column.
  An id that is not a whole number matches no row.
\<close>

fun set_balances :: "bool \<Rightarrow> rat \<Rightarrow> (rat \<Rightarrow> rat) \<Rightarrow> customer list \<Rightarrow> store_error + customer list" where
  "set_balances strict x f [] = Inr []"
| "set_balances strict x f (c # cs) =
     (if of_nat (c_id c) = x
      then and_then (to_decimal strict (f (decimal_value (current_balance c)))) (\<lambda>v.
           and_then (set_balances strict x f cs) (\<lambda>cs'.
             Inr (c\<lparr>current_balance := v\<rparr> # cs')))
      else and_then (set_balances strict x f cs) (\<lambda>cs'. Inr (c # cs')))"

text \<open>What \<open>set_balances\<close> stores in a row when the store accepts the new value.\<close>

definition new_balance :: "bool \<Rightarrow> (rat \<Rightarrow> rat) \<Rightarrow> customer \<Rightarrow> int" where
  "new_balance strict f c =
     (case to_decimal strict (f (decimal_value (current_balance c))) of
        Inl e \<Rightarrow> current_balance c
      | Inr v \<Rightarrow> v)"

text \<open>
  \<open>UPDATE customers SET current_balance = current_balance + ? WHERE id = ?\<close>. No row
  matches a \<open>NULL\<close> id. A \<open>NULL\<close> amount makes the sum \<open>NULL\<close>: in strict mode the
  column refuses it when a row matches, otherwise the row gets the default 0.
\<close>

definition add_to_balance :: "rat option \<Rightarrow> rat option \<Rightarrow> unit statement" where
  "add_to_balance delta cid d =
     (case cid of
        None \<Rightarrow> Inr ((), d)
      | Some x \<Rightarrow>
          (case delta of
             None \<Rightarrow>
               if strict_mode d
               then (if \<exists>c\<in>set (customers d). of_nat (c_id c) = x
                     then Inl NullViolation else Inr ((), d))
               else Inr ((), d\<lparr>customers :=
                               map (\<lambda>c. if of_nat (c_id c) = x
                                        then c\<lparr>current_balance := 0\<rparr> else c)
                                   (customers d)\<rparr>)
           | Some t \<Rightarrow>
               and_then (set_balances (strict_mode d) x (\<lambda>b. b + t) (customers d))
                 (\<lambda>cs. Inr ((), d\<lparr>customers := cs\<rparr>))))"

text \<open>\<open>INSERT INTO payments (customer_id, amount, note) VALUES (?, ?, ?)\<close>\<close>

definition insert_payment :: "nat \<Rightarrow> rat \<Rightarrow> rat \<Rightarrow> js_string option \<Rightarrow> nat statement" where
  "insert_payment now x amt nt d =
     and_then (to_int (strict_mode d) x) (\<lambda>k.
     and_then (to_decimal (strict_mode d) amt) (\<lambda>v.
       if 0 \<le> k \<and> has_customer (nat k) d
       then Inr (payments_auto_increment d,
                 d\<lparr>payments := payments d @
                      [\<lparr>p_id = payments_auto_increment d, p_customer_id = nat k, amount = v,
                        payment_date = now, p_note = nt\<rparr>],
                   payments_auto_increment := Suc (payments_auto_increment d)\<rparr>)
       else Inl ForeignKeyViolation))"

text \<open>\<open>UPDATE customers SET current_balance = current_balance - ? WHERE id = ?\<close>\<close>

definition subtract_from_balance :: "rat \<Rightarrow> rat \<Rightarrow> unit statement" where
  "subtract_from_balance amt x d =
     and_then (set_balances (strict_mode d) x (\<lambda>b. b - amt) (customers d))
       (\<lambda>cs. Inr ((), d\<lparr>customers := cs\<rparr>))"

text \<open>\<open>SELECT current_balance FROM customers WHERE id = ?\<close>\<close>

definition select_balance :: "rat \<Rightarrow> int list statement" where
  "select_balance x d =
     Inr (map current_balance (filter (\<lambda>c. of_nat (c_id c) = x) (customers d)), d)"

text \<open>\<open>UPDATE orders SET status = 'paid' WHERE customer_id = ? AND status = 'pending'\<close>\<close>

definition mark_paid :: "rat \<Rightarrow> unit statement" where
  "mark_paid x d =
     Inr ((), d\<lparr>orders :=
                 map (\<lambda>r. if of_nat (o_customer_id r) = x \<and> status r = Pending
                          then r\<lparr>status := Paid\<rparr> else r)
                     (orders d)\<rparr>)"

text \<open>\<open>SELECT * FROM payments WHERE id = ?\<close>\<close>

definition select_payment :: "nat \<Rightarrow> payment list statement" where
  "select_payment i d = Inr (filter (\<lambda>p. p_id p = i) (payments d), d)"

subsection \<open>Connections and transactions\<close>

text \<open>
  A request issues its statements one after the other. \<open>issued\<close> counts them, and the
  fault oracle of the request says which of them the store rejects for a reason of its
  own. \<open>snapshot\<close> holds the tables as they were at \<open>beginTransaction\<close> while a
  transaction is open.
\<close>

type_synonym faults = "nat \<Rightarrow> bool"

definition no_faults :: faults where
  "no_faults = (\<lambda>_. False)"

record session =
  issued :: nat
  store :: db
  snapshot :: "db option"

type_synonym 'a action = "session \<Rightarrow> (store_error + 'a) \<times> session"

definition connect :: "db \<Rightarrow> session" where
  "connect d = \<lparr>issued = 0, store = d, snapshot = None\<rparr>"

definition query :: "faults \<Rightarrow> 'a statement \<Rightarrow> 'a action" where
  "query flt q s =
     (if flt (issued s) then (Inl StoreFault, s\<lparr>issued := Suc (issued s)\<rparr>)
      else case q (store s) of
             Inl e \<Rightarrow> (Inl e, s\<lparr>issued := Suc (issued s)\<rparr>)
           | Inr (r, d) \<Rightarrow> (Inr r, s\<lparr>issued := Suc (issued s), store := d\<rparr>))"

definition beginTransaction :: "faults \<Rightarrow> unit action" where
  "beginTransaction flt s =
     (if flt (issued s) then (Inl StoreFault, s\<lparr>issued := Suc (issued s)\<rparr>)
      else (Inr (), s\<lparr>issued := Suc (issued s), snapshot := Some (store s)\<rparr>))"

definition commit :: "faults \<Rightarrow> unit action" where
  "commit flt s =
     (if flt (issued s) then (Inl StoreFault, s\<lparr>issued := Suc (issued s)\<rparr>)
      else (Inr (), s\<lparr>issued := Suc (issued s), snapshot := None\<rparr>))"

text \<open>
  \<open>rollback\<close> puts the rows back as they were at \<open>beginTransaction\<close>; with no open
  transaction it does nothing. The \<open>AUTO_INCREMENT\<close> counters are not rows and keep
  their values.
\<close>

definition restore_rows :: "db \<Rightarrow> db \<Rightarrow> db" where
  "restore_rows d0 d = d\<lparr>customers := customers d0, orders := orders d0, payments := payments d0\<rparr>"

definition rollback :: "session \<Rightarrow> session" where
  "rollback s =
     (case snapshot s of
        None \<Rightarrow> s
      | Some d0 \<Rightarrow> s\<lparr>store := restore_rows d0 (store s), snapshot := None\<rparr>)"

text \<open>\<open>await m\<close> followed by the rest of the \<open>try\<close> block: a rejection skips the rest.\<close>

definition await :: "'a action \<Rightarrow> ('a \<Rightarrow> 'b action) \<Rightarrow> 'b action" where
  "await m f s = (case m s of (Inl e, s') \<Rightarrow> (Inl e, s') | (Inr x, s') \<Rightarrow> f x s')"

definition return :: "'a \<Rightarrow> 'a action" where
  "return x s = (Inr x, s)"

section \<open>The handlers\<close>

text \<open>
  What a handler answers when it does not answer with a result: the 400 and 404
  answers, told apart by their messages, and the 500 answer of a \<open>catch\<close> block.
\<close>

datatype error =
    NameRequired
  | OrdersRequired
  | PaymentFieldsRequired
  | HasOrders
  | HasPayments
  | CustomerNotFound
  | QueryFailed store_error

fun status_code :: "error \<Rightarrow> nat" where
  "status_code NameRequired = 400"
| "status_code OrdersRequired = 400"
| "status_code PaymentFieldsRequired = 400"
| "status_code HasOrders = 400"
| "status_code HasPayments = 400"
| "status_code CustomerNotFound = 404"
| "status_code (QueryFailed _) = 500"

text \<open>The names that the specification gives to these answers.\<close>

datatype error_kind = ValidationError | Conflict | NotFound | TransactionFailure

fun kind :: "error \<Rightarrow> error_kind" where
  "kind NameRequired = ValidationError"
| "kind OrdersRequired = ValidationError"
| "kind PaymentFieldsRequired = ValidationError"
| "kind HasOrders = Conflict"
| "kind HasPayments = Conflict"
| "kind CustomerNotFound = NotFound"
| "kind (QueryFailed _) = TransactionFailure"

subsection \<open>Request bodies\<close>

text \<open>
  The fields of a body have the types of the client's interfaces, numbers and strings;
  \<open>None\<close> is a field that is absent or \<open>null\<close>. A number is falsy when it is absent or
  0, a string when it is absent or empty.
\<close>

record customer_body =
  body_name :: "js_string option"
  body_phone :: "js_string option"

record CreateOrderRow =
  row_customer_id :: "rat option"
  row_quantity :: "rat option"
  row_unit_price :: "rat option"
  row_total_price :: "rat option"
  row_order_group_id :: "js_string option"

datatype orders_body = NotAnArray | Array "CreateOrderRow list"

record payment_body =
  pay_customer_id :: "rat option"
  pay_amount :: "rat option"
  pay_note :: "js_string option"

fun falsy_str :: "js_string option \<Rightarrow> bool" where
  "falsy_str None = True"
| "falsy_str (Some s) = (s = [])"

text \<open>\<open>x || null\<close> on a string field.\<close>

definition or_null :: "js_string option \<Rightarrow> js_string option" where
  "or_null x = (if falsy_str x then None else x)"

text \<open>
  \<open>String.prototype.trim\<close> strips the white space and the line terminators of
  ECMAScript from both ends.
\<close>

definition is_space :: "nat \<Rightarrow> bool" where
  "is_space c =
     (c \<in> set [0x0009, 0x000A, 0x000B, 0x000C, 0x000D, 0x0020, 0x00A0, 0x1680,
               0x2028, 0x2029, 0x202F, 0x205F, 0x3000, 0xFEFF] \<or>
      (0x2000 \<le> c \<and> c \<le> 0x200A))"

definition trim :: "js_string \<Rightarrow> js_string" where
  "trim s = rev (dropWhile is_space (rev (dropWhile is_space s)))"

definition invalid_name :: "js_string option \<Rightarrow> bool" where
  "invalid_name nm = (case nm of None \<Rightarrow> True | Some s \<Rightarrow> s = [] \<or> trim s = [])"

definition name_of :: "js_string option \<Rightarrow> js_string" where
  "name_of nm = (case nm of None \<Rightarrow> [] | Some s \<Rightarrow> trim s)"

definition first_row :: "'a list \<Rightarrow> 'a option" where
  "first_row rows = (case rows of [] \<Rightarrow> None | r # _ \<Rightarrow> Some r)"

subsection \<open>Customers\<close>

text \<open>
  \<open>POST /customers\<close>. The queries go through the pool, outside any transaction: each
  one is final when it returns.
\<close>

definition post_customers :: "faults \<Rightarrow> nat \<Rightarrow> customer_body \<Rightarrow> db \<Rightarrow> (error + customer option) \<times> db" where
  "post_customers flt now body d =
     (if invalid_name (body_name body) then (Inl NameRequired, d)
      else
        case await (query flt (insert_customer now (name_of (body_name body))
                                 (or_null (body_phone body))))
               (\<lambda>insertId. await (query flt (select_customer insertId))
               (\<lambda>rows. return (first_row rows))) (connect d) of
          (Inl e, s) \<Rightarrow> (Inl (QueryFailed e), store s)
        | (Inr c, s) \<Rightarrow> (Inr c, store s))"

text \<open>\<open>PUT /customers/:id\<close>\<close>

definition put_customer :: "faults \<Rightarrow> nat \<Rightarrow> customer_body \<Rightarrow> db \<Rightarrow> (error + customer option) \<times> db" where
  "put_customer flt k body d =
     (if invalid_name (body_name body) then (Inl NameRequired, d)
      else
        case await (query flt (update_customer (name_of (body_name body))
                                 (or_null (body_phone body)) k))
               (\<lambda>affectedRows.
                  if affectedRows = 0 then return (Inl CustomerNotFound)
                  else await (query flt (select_customer k))
                         (\<lambda>rows. return (Inr (first_row rows)))) (connect d) of
          (Inl e, s) \<Rightarrow> (Inl (QueryFailed e), store s)
        | (Inr r, s) \<Rightarrow> (r, store s))"

text \<open>\<open>DELETE /customers/:id\<close>\<close>

definition delete_customer :: "faults \<Rightarrow> nat \<Rightarrow> db \<Rightarrow> (error + unit) \<times> db" where
  "delete_customer flt k d =
     (case await (query flt (count_orders k))
             (\<lambda>cnt. if cnt > 0 then return (Inl HasOrders)
                else await (query flt (count_payments k))
             (\<lambda>cnt. if cnt > 0 then return (Inl HasPayments)
                else await (query flt (delete_customer_row k))
             (\<lambda>affectedRows.
                if affectedRows = 0 then return (Inl CustomerNotFound)
                else return (Inr ())))) (connect d) of
        (Inl e, s) \<Rightarrow> (Inl (QueryFailed e), store s)
      | (Inr r, s) \<Rightarrow> (r, store s))"

subsection \<open>Orders\<close>

text \<open>The \<open>for\<close> loop of \<open>POST /orders\<close>: insert the order, then raise the balance.\<close>

fun insert_orders :: "faults \<Rightarrow> nat \<Rightarrow> CreateOrderRow list \<Rightarrow> nat list \<Rightarrow> nat list action" where
  "insert_orders flt now [] insertedIds = return insertedIds"
| "insert_orders flt now (order # rest) insertedIds =
     await (query flt (insert_order now (row_customer_id order) (row_quantity order)
                         (row_unit_price order) (row_total_price order)
                         (or_null (row_order_group_id order))))
       (\<lambda>insertId.
     await (query flt (add_to_balance (row_total_price order) (row_customer_id order)))
       (\<lambda>_. insert_orders flt now rest (insertedIds @ [insertId])))"

text \<open>The \<open>try\<close> block of \<open>POST /orders\<close>.\<close>

definition try_orders :: "faults \<Rightarrow> nat \<Rightarrow> CreateOrderRow list \<Rightarrow> nat list action" where
  "try_orders flt now rows =
     await (beginTransaction flt)
       (\<lambda>_. await (insert_orders flt now rows [])
       (\<lambda>insertedIds. await (commit flt)
       (\<lambda>_. return insertedIds)))"

text \<open>
  \<open>POST /orders\<close>: the answer carries the number of orders and their ids; the \<open>catch\<close>
  block rolls back.
\<close>

definition post_orders :: "faults \<Rightarrow> nat \<Rightarrow> orders_body \<Rightarrow> db \<Rightarrow> (error + nat \<times> nat list) \<times> db" where
  "post_orders flt now body d =
     (case body of
        NotAnArray \<Rightarrow> (Inl OrdersRequired, d)
      | Array rows \<Rightarrow>
          if rows = [] then (Inl OrdersRequired, d)
          else
            (case try_orders flt now rows (connect d) of
               (Inl e, s) \<Rightarrow> (Inl (QueryFailed e), store (rollback s))
             | (Inr ids, s) \<Rightarrow> (Inr (length ids, ids), store s)))"

subsection \<open>Payments\<close>

text \<open>
  The \<open>try\<close> block of \<open>POST /payments\<close>. The created payment is read back after the
  commit, inside the block.
\<close>

definition try_payment :: "faults \<Rightarrow> nat \<Rightarrow> rat \<Rightarrow> rat \<Rightarrow> js_string option \<Rightarrow> payment option action" where
  "try_payment flt now customer_id amt nt =
     await (beginTransaction flt)
       (\<lambda>_. await (query flt (insert_payment now customer_id amt (or_null nt)))
       (\<lambda>insertId. await (query flt (subtract_from_balance amt customer_id))
       (\<lambda>_. await (query flt (select_balance customer_id))
       (\<lambda>customerRows.
          await (if customerRows \<noteq> [] \<and> hd customerRows \<le> 0
                 then query flt (mark_paid customer_id) else return ())
       (\<lambda>_. await (commit flt)
       (\<lambda>_. await (query flt (select_payment insertId))
       (\<lambda>paymentRows. return (first_row paymentRows))))))))"

text \<open>\<open>POST /payments\<close>: the \<open>catch\<close> block rolls back.\<close>

definition post_payments :: "faults \<Rightarrow> nat \<Rightarrow> payment_body \<Rightarrow> db \<Rightarrow> (error + payment option) \<times> db" where
  "post_payments flt now body d =
     (case (pay_customer_id body, pay_amount body) of
        (Some customer_id, Some amt) \<Rightarrow>
          if customer_id = 0 \<or> amt = 0 then (Inl PaymentFieldsRequired, d)
          else
            (case try_payment flt now customer_id amt (pay_note body) (connect d) of
               (Inl e, s) \<Rightarrow> (Inl (QueryFailed e), store (rollback s))
             | (Inr p, s) \<Rightarrow> (Inr p, store s))
      | _ \<Rightarrow> (Inl PaymentFieldsRequired, d))"

section \<open>Requests and runs\<close>

text \<open>A request to one of the five writing handlers, and what it leaves in the store.\<close>

datatype request =
    PostCustomers nat customer_body
  | PutCustomer nat customer_body
  | DeleteCustomer nat
  | PostOrders nat orders_body
  | PostPayments nat payment_body

fun handle :: "faults \<Rightarrow> request \<Rightarrow> db \<Rightarrow> db" where
  "handle flt (PostCustomers now body) d = snd (post_customers flt now body d)"
| "handle flt (PutCustomer k body) d = snd (put_customer flt k body d)"
| "handle flt (DeleteCustomer k) d = snd (delete_customer flt k d)"
| "handle flt (PostOrders now body) d = snd (post_orders flt now body d)"
| "handle flt (PostPayments now body) d = snd (post_payments flt now body d)"

text \<open>A run serves the requests one after the other, each under its own faults.\<close>

fun run :: "(faults \<times> request) list \<Rightarrow> db \<Rightarrow> db" where
  "run [] d = d"
| "run ((flt, req) # reqs) d = run reqs (handle flt req d)"

section \<open>Properties of the ledger\<close>

definition order_total :: "nat \<Rightarrow> order list \<Rightarrow> int" where
  "order_total k rows = sum_list (map total_price (filter (\<lambda>r. o_customer_id r = k) rows))"





text \<open>The balance that \<open>SELECT current_balance\<close> finds for an id: that of the first row.\<close>

definition balance_of :: "rat \<Rightarrow> db \<Rightarrow> int option" where
  "balance_of x d =
     first_row (map current_balance (filter (\<lambda>c. of_nat (c_id c) = x) (customers d)))"

definition in_credit :: "rat \<Rightarrow> db \<Rightarrow> bool" where
  "in_credit x d = (case balance_of x d of None \<Rightarrow> False | Some b \<Rightarrow> b \<le> 0)"

text \<open>The rows of two stores are the same.\<close>

definition same_rows :: "db \<Rightarrow> db \<Rightarrow> bool" where
  "same_rows d d' =
     (customers d' = customers d \<and> orders d' = orders d \<and> payments d' = payments d)"

text \<open>A number with at most two decimal places, and a whole number.\<close>

definition hundredths :: "rat \<Rightarrow> bool" where
  "hundredths x = (of_int \<lfloor>x * 100\<rfloor> = x * 100)"

definition whole :: "rat \<Rightarrow> bool" where
  "whole x = (of_int \<lfloor>x\<rfloor> = x)"

text \<open>
  The statements of a batch of orders and of a payment, one after the other, when the
  store answers each of them: the first refusal ends them.
\<close>

fun batch_statements :: "nat \<Rightarrow> CreateOrderRow list \<Rightarrow> db \<Rightarrow> store_error + db" where
  "batch_statements now [] d = Inr d"
| "batch_statements now (order # rest) d =
     and_then (insert_order now (row_customer_id order) (row_quantity order)
                 (row_unit_price order) (row_total_price order)
                 (or_null (row_order_group_id order)) d) (\<lambda>(insertId, d1).
     and_then (add_to_balance (row_total_price order) (row_customer_id order) d1) (\<lambda>(u, d2).
       batch_statements now rest d2))"

definition payment_statements :: "nat \<Rightarrow> rat \<Rightarrow> rat \<Rightarrow> js_string option \<Rightarrow> db \<Rightarrow> store_error + db" where
  "payment_statements now x amt nt d =
     and_then (insert_payment now x amt (or_null nt) d) (\<lambda>(insertId, d1).
     and_then (subtract_from_balance amt x d1) (\<lambda>(u, d2).
       if in_credit x d2 then and_then (mark_paid x d2) (\<lambda>(u, d3). Inr d3) else Inr d2))"

text \<open>
  Requests whose customer ids are whole numbers and whose order totals and payment
  amounts have at most two decimal places.
\<close>

fun plain_row :: "CreateOrderRow \<Rightarrow> bool" where
  "plain_row row =
     ((case row_customer_id row of None \<Rightarrow> True | Some c \<Rightarrow> whole c) \<and>
      (case row_total_price row of None \<Rightarrow> True | Some t \<Rightarrow> hundredths t))"


text \<open>
  The scenario of the settlement rule: the customer with id 1 and two pending orders,
  of 100.00 and of 50.00. The name is Ayse.
\<close>

definition two_pending_orders :: "bool \<Rightarrow> db" where
  "two_pending_orders strict =
     run [(no_faults, PostCustomers 0 \<lparr>body_name = Some [65, 121, 115, 101], body_phone = None\<rparr>),
          (no_faults, PostOrders 1 (Array
             [\<lparr>row_customer_id = Some 1, row_quantity = Some 20, row_unit_price = Some 5,
               row_total_price = Some 100, row_order_group_id = None\<rparr>,
              \<lparr>row_customer_id = Some 1, row_quantity = Some 10, row_unit_price = Some 5,
               row_total_price = Some 50, row_order_group_id = None\<rparr>]))]
       (empty_db strict)"

section \<open>Running the handlers\<close>

lemmas action_defs =
  await_def query_def return_def beginTransaction_def commit_def connect_def rollback_def
  restore_rows_def

lemma hd_rows:
  "(rows \<noteq> [] \<and> hd rows \<le> (0::int)) =
     (case first_row rows of None \<Rightarrow> False | Some b \<Rightarrow> b \<le> 0)"
  by (cases rows) (auto simp: first_row_def)

subsection \<open>Numbers\<close>

lemma round_half_away_of_int [simp]: "round_half_away (of_int n) = n"
proof (cases "0 \<le> n")
  case True
  have "\<lfloor>(of_int n :: rat) + 1 / 2\<rfloor> = n" by linarith
  with True show ?thesis by (simp add: round_half_away_def)
next
  case False
  have "\<lceil>(of_int n :: rat) - 1 / 2\<rceil> = n" by linarith
  with False show ?thesis by (simp add: round_half_away_def)
qed

lemma round_half_away_numeral [simp]:
  "round_half_away (numeral w) = numeral w"
  "round_half_away (- numeral w) = - numeral w"
  "round_half_away 0 = 0" "round_half_away 1 = 1"
  using round_half_away_of_int[of "numeral w"] round_half_away_of_int[of "- numeral w"]
    round_half_away_of_int[of 0] round_half_away_of_int[of 1]
  by simp_all

lemma round_half_away_nonpos: "x \<le> 0 \<Longrightarrow> round_half_away x \<le> 0"
  unfolding round_half_away_def by (auto simp: floor_le_iff ceiling_le_iff)

lemma hundredthsE:
  assumes "hundredths x"
  obtains n where "x * 100 = of_int n" "x = of_int n / 100"
proof -
  from assms have a: "x * 100 = of_int \<lfloor>x * 100\<rfloor>"
    unfolding hundredths_def by (rule sym)
  then have "x = of_int \<lfloor>x * 100\<rfloor> / 100"
    by (simp only: nonzero_eq_divide_eq)
  with a show ?thesis using that by blast
qed

lemma wholeE:
  assumes "whole x"
  obtains n where "x = of_int n"
proof -
  from assms have "x = of_int \<lfloor>x\<rfloor>"
    unfolding whole_def by (rule sym)
  then show ?thesis using that by blast
qed

lemma to_decimal_value:
  "to_decimal strict x = Inr v \<Longrightarrow>
     - decimal_max \<le> v \<and> v \<le> decimal_max \<and>
     (strict \<longrightarrow> v = round_half_away (x * 100))"
  by (auto simp: to_decimal_def into_range_def decimal_max_def split: if_splits)

lemma to_decimal_nonpos: "to_decimal strict x = Inr v \<Longrightarrow> x \<le> 0 \<Longrightarrow> v \<le> 0"
  using round_half_away_nonpos[of "x * 100"]
  by (auto simp: to_decimal_def into_range_def decimal_max_def split: if_splits)

lemma to_decimal_in_range:
  "- decimal_max \<le> round_half_away (x * 100) \<Longrightarrow> round_half_away (x * 100) \<le> decimal_max \<Longrightarrow>
     to_decimal strict x = Inr (round_half_away (x * 100))"
  by (simp add: to_decimal_def into_range_def)

lemma two_pending_orders_rows:
  "two_pending_orders strict =
     \<lparr>customers = [\<lparr>c_id = 1, c_name = [65, 121, 115, 101], c_phone = None,
                     current_balance = 15000, created_at = 0\<rparr>],
      orders = [\<lparr>o_id = 1, o_customer_id = 1, quantity = 20, unit_price = 500,
                  total_price = 10000, status = Pending, order_date = 1, order_group_id = None\<rparr>,
                \<lparr>o_id = 2, o_customer_id = 1, quantity = 10, unit_price = 500,
                  total_price = 5000, status = Pending, order_date = 1, order_group_id = None\<rparr>],
      payments = [],
      customers_auto_increment = 2, orders_auto_increment = 3, payments_auto_increment = 1,
      strict_mode = strict\<rparr>"
  by (simp add: two_pending_orders_def post_customers_def post_orders_def try_orders_def
      action_defs no_faults_def empty_db_def invalid_name_def name_of_def trim_def is_space_def
      or_null_def insert_customer_def select_customer_def first_row_def insert_order_def
      add_to_balance_def has_customer_def and_then_def to_int_def to_decimal_def into_range_def
      decimal_max_def decimal_value_def)

subsection \<open>Deleting a customer\<close>

lemma delete_customer_eq:
  "delete_customer flt k d =
     (if flt 0 then (Inl (QueryFailed StoreFault), d)
      else if \<exists>r\<in>set (orders d). o_customer_id r = k then (Inl HasOrders, d)
      else if flt 1 then (Inl (QueryFailed StoreFault), d)
      else if \<exists>p\<in>set (payments d). p_customer_id p = k then (Inl HasPayments, d)
      else if flt 2 then (Inl (QueryFailed StoreFault), d)
      else if \<not> has_customer k d then (Inl CustomerNotFound, d)
      else (Inr (), d\<lparr>customers := filter (\<lambda>c. c_id c \<noteq> k) (customers d)\<rparr>))"
  apply (simp add: delete_customer_def action_defs count_orders_def count_payments_def
      delete_customer_row_def filter_empty_conv eval_nat_numeral)
  apply (auto simp: has_customer_def filter_id_conv filter_empty_conv)
  done

text \<open>
  C6. When the store answers every query, deleting a customer is refused as a conflict
  if the customer has an order; failing that, as a conflict if the customer has a
  payment; failing that, as not found if no customer has the id. In these three cases
  the store stays as it was. Otherwise the customer's row, and nothing else, is removed.
\<close>

theorem delete_customer_guard:
  "delete_customer no_faults k d =
     (if \<exists>r\<in>set (orders d). o_customer_id r = k then (Inl HasOrders, d)
      else if \<exists>p\<in>set (payments d). p_customer_id p = k then (Inl HasPayments, d)
      else if \<not> has_customer k d then (Inl CustomerNotFound, d)
      else (Inr (), d\<lparr>customers := filter (\<lambda>c. c_id c \<noteq> k) (customers d)\<rparr>)) \<and>
   kind HasOrders = Conflict \<and> kind HasPayments = Conflict \<and> kind CustomerNotFound = NotFound"
  by (simp add: delete_customer_eq no_faults_def)

theorem delete_customer_guard_witness:
  "(\<exists>r\<in>set (orders (two_pending_orders True)). o_customer_id r = 1) \<and>
   delete_customer no_faults 1 (two_pending_orders True) = (Inl HasOrders, (two_pending_orders True)) \<and>
   \<not> (\<exists>r\<in>set (orders (two_pending_orders True)). o_customer_id r = 2) \<and>
   \<not> (\<exists>p\<in>set (payments (two_pending_orders True)). p_customer_id p = 2) \<and>
   \<not> has_customer 2 (two_pending_orders True) \<and>
   delete_customer no_faults 2 (two_pending_orders True) = (Inl CustomerNotFound, (two_pending_orders True))"
  using delete_customer_guard [of 1 "two_pending_orders True"]
    delete_customer_guard [of 2 "two_pending_orders True"]
  by (simp add: two_pending_orders_rows has_customer_def)

subsection \<open>Validation\<close>

text \<open>
  C7. A payment whose \<open>customer_id\<close> or whose \<open>amount\<close> is absent or zero is refused as
  a validation error, whatever the store does, and the store stays as it was.
\<close>

theorem post_payments_rejects_falsy:
  assumes "pay_customer_id body \<in> {None, Some 0} \<or> pay_amount body \<in> {None, Some 0}"
  shows "post_payments flt now body d = (Inl PaymentFieldsRequired, d) \<and>
         kind PaymentFieldsRequired = ValidationError \<and>
         status_code PaymentFieldsRequired = 400"
  using assms by (auto simp: post_payments_def split: option.splits)

theorem post_payments_rejects_falsy_witness:
  "pay_amount \<lparr>pay_customer_id = Some 1, pay_amount = Some 0, pay_note = None\<rparr> \<in> {None, Some 0} \<and>
   post_payments no_faults 2 \<lparr>pay_customer_id = Some 1, pay_amount = Some 0, pay_note = None\<rparr>
     (two_pending_orders True) = (Inl PaymentFieldsRequired, (two_pending_orders True))"
  using post_payments_rejects_falsy
    [of "\<lparr>pay_customer_id = Some 1, pay_amount = Some 0, pay_note = None\<rparr>"
        no_faults 2 "two_pending_orders True"]
  by simp

text \<open>
  C8. A body that is not an array, and an empty array, are refused as a validation
  error, whatever the store does, and the store stays as it was.
\<close>

theorem post_orders_rejects_empty:
  "post_orders flt now NotAnArray d = (Inl OrdersRequired, d) \<and>
   post_orders flt now (Array []) d = (Inl OrdersRequired, d) \<and>
   kind OrdersRequired = ValidationError \<and> status_code OrdersRequired = 400"
  by (simp add: post_orders_def)

subsection \<open>Customers\<close>

lemma map_unchanged:
  "\<forall>c\<in>set cs. c_id c \<noteq> k \<Longrightarrow> map (\<lambda>c. if c_id c = k then f c else c) cs = cs"
  by (induction cs) auto

lemma put_customer_eq:
  "put_customer flt k body d =
     (if invalid_name (body_name body) then (Inl NameRequired, d)
      else if flt 0 then (Inl (QueryFailed StoreFault), d)
      else if \<not> has_customer k d then (Inl CustomerNotFound, d)
      else if flt 1
      then (Inl (QueryFailed StoreFault),
            d\<lparr>customers := map (\<lambda>c. if c_id c = k
                 then c\<lparr>c_name := name_of (body_name body), c_phone := or_null (body_phone body)\<rparr>
                 else c) (customers d)\<rparr>)
      else (Inr (first_row (filter (\<lambda>c. c_id c = k)
                   (map (\<lambda>c. if c_id c = k
                     then c\<lparr>c_name := name_of (body_name body), c_phone := or_null (body_phone body)\<rparr>
                     else c) (customers d)))),
            d\<lparr>customers := map (\<lambda>c. if c_id c = k
                 then c\<lparr>c_name := name_of (body_name body), c_phone := or_null (body_phone body)\<rparr>
                 else c) (customers d)\<rparr>))"
  by (auto simp: put_customer_def action_defs update_customer_def select_customer_def
      has_customer_def map_unchanged filter_empty_conv eval_nat_numeral)

lemma post_customers_eq:
  "post_customers flt now body d =
     (if invalid_name (body_name body) then (Inl NameRequired, d)
      else if flt 0 then (Inl (QueryFailed StoreFault), d)
      else if flt 1
      then (Inl (QueryFailed StoreFault),
            d\<lparr>customers := customers d @
               [\<lparr>c_id = customers_auto_increment d, c_name = name_of (body_name body),
                 c_phone = or_null (body_phone body), current_balance = 0, created_at = now\<rparr>],
              customers_auto_increment := Suc (customers_auto_increment d)\<rparr>)
      else (Inr (first_row (filter (\<lambda>c. c_id c = customers_auto_increment d)
               (customers d @
               [\<lparr>c_id = customers_auto_increment d, c_name = name_of (body_name body),
                 c_phone = or_null (body_phone body), current_balance = 0, created_at = now\<rparr>]))),
            d\<lparr>customers := customers d @
               [\<lparr>c_id = customers_auto_increment d, c_name = name_of (body_name body),
                 c_phone = or_null (body_phone body), current_balance = 0, created_at = now\<rparr>],
              customers_auto_increment := Suc (customers_auto_increment d)\<rparr>))"
  by (simp add: post_customers_def action_defs insert_customer_def select_customer_def
      eval_nat_numeral)

text \<open>
  C10. An update leaves the orders, the payments, and the id, the balance and the
  creation date of every customer as they were, and touches no customer with another
  id. When it succeeds with a phone that is absent or empty, the stored phone of the
  customer is \<open>NULL\<close>, whatever it was before.
\<close>

theorem put_customer_overwrites_phone:
  assumes "put_customer flt k body d = (r, d')"
  shows "orders d' = orders d \<and> payments d' = payments d \<and>
         map c_id (customers d') = map c_id (customers d) \<and>
         map current_balance (customers d') = map current_balance (customers d) \<and>
         map created_at (customers d') = map created_at (customers d) \<and>
         (\<forall>i<length (customers d). c_id (customers d ! i) \<noteq> k \<longrightarrow> customers d' ! i = customers d ! i) \<and>
         ((\<exists>c. r = Inr c) \<and> falsy_str (body_phone body) \<longrightarrow>
            has_customer k d \<and>
            (\<forall>c\<in>set (customers d'). c_id c = k \<longrightarrow> c_phone c = None) \<and>
            (\<exists>c. r = Inr (Some c) \<and> c_id c = k \<and> c_phone c = None))"
proof -
  let ?f = "\<lambda>c. if c_id c = k
                 then c\<lparr>c_name := name_of (body_name body), c_phone := or_null (body_phone body)\<rparr>
                 else c"
  have ids: "map c_id (map ?f cs) = map c_id cs" 
    and bal: "map current_balance (map ?f cs) = map current_balance cs"
    and crt: "map created_at (map ?f cs) = map created_at cs" for cs
    by (induction cs) auto
  have first: "k \<in> set (map c_id cs) \<Longrightarrow> falsy_str (body_phone body) \<Longrightarrow>
      \<exists>c. first_row (filter (\<lambda>c. c_id c = k) (map ?f cs)) = Some c \<and> c_id c = k \<and> c_phone c = None" for cs
    by (induction cs) (auto simp: first_row_def or_null_def)
  from assms show ?thesis
    unfolding put_customer_eq
    using first [of "customers d"]
    by (auto simp: ids bal crt or_null_def has_customer_def split: if_splits)
qed

theorem put_customer_overwrites_phone_witness:
  "put_customer no_faults 1 \<lparr>body_name = Some [65, 121, 115, 101, 32, 75], body_phone = None\<rparr>
      ((two_pending_orders True)\<lparr>customers := map (\<lambda>c. c\<lparr>c_phone := Some [53, 53, 53]\<rparr>) (customers (two_pending_orders True))\<rparr>)
    = (Inr (Some \<lparr>c_id = 1, c_name = [65, 121, 115, 101, 32, 75], c_phone = None, current_balance = 15000, created_at = 0\<rparr>),
       (two_pending_orders True)\<lparr>customers := [\<lparr>c_id = 1, c_name = [65, 121, 115, 101, 32, 75], c_phone = None, current_balance = 15000, created_at = 0\<rparr>]\<rparr>) \<and>
   falsy_str (body_phone \<lparr>body_name = Some [65, 121, 115, 101, 32, 75], body_phone = None\<rparr>) \<and>
   map c_phone (customers ((two_pending_orders True)\<lparr>customers := map (\<lambda>c. c\<lparr>c_phone := Some [53, 53, 53]\<rparr>) (customers (two_pending_orders True))\<rparr>)) = [Some [53, 53, 53]]"
proof -
  have h: "put_customer no_faults 1 \<lparr>body_name = Some [65, 121, 115, 101, 32, 75], body_phone = None\<rparr>
      ((two_pending_orders True)\<lparr>customers := map (\<lambda>c. c\<lparr>c_phone := Some [53, 53, 53]\<rparr>) (customers (two_pending_orders True))\<rparr>)
    = (Inr (Some \<lparr>c_id = 1, c_name = [65, 121, 115, 101, 32, 75], c_phone = None, current_balance = 15000, created_at = 0\<rparr>),
       (two_pending_orders True)\<lparr>customers := [\<lparr>c_id = 1, c_name = [65, 121, 115, 101, 32, 75], c_phone = None, current_balance = 15000, created_at = 0\<rparr>]\<rparr>)"
    by (simp add: put_customer_eq no_faults_def invalid_name_def name_of_def trim_def is_space_def
        or_null_def has_customer_def first_row_def two_pending_orders_rows)
  from h put_customer_overwrites_phone [OF h] show ?thesis
    by (simp add: two_pending_orders_rows)
qed

subsection \<open>Statements\<close>

lemma and_then_Inr:
  "and_then r f = Inr y \<longleftrightarrow> (\<exists>x. r = Inr x \<and> f x = Inr y)"
  by (cases r) (auto simp: and_then_def)

lemma and_then_Inl:
  "and_then r f = Inl e \<longleftrightarrow> r = Inl e \<or> (\<exists>x. r = Inr x \<and> f x = Inl e)"
  by (cases r) (auto simp: and_then_def)

lemma set_balances_Inr:
  "set_balances strict x f cs = Inr cs' \<Longrightarrow>
     cs' = map (\<lambda>c. if of_nat (c_id c) = x then c\<lparr>current_balance := new_balance strict f c\<rparr> else c) cs \<and>
     (\<forall>c\<in>set cs. of_nat (c_id c) = x \<longrightarrow>
        to_decimal strict (f (decimal_value (current_balance c))) = Inr (new_balance strict f c))"
proof (induction cs arbitrary: cs')
  case Nil
  then show ?case by simp
next
  case (Cons c cs)
  show ?case
  proof (cases "of_nat (c_id c) = x")
    case True
    with Cons.prems obtain v cs0 where
      v: "to_decimal strict (f (decimal_value (current_balance c))) = Inr v"
      and r: "set_balances strict x f cs = Inr cs0"
      and e: "cs' = c\<lparr>current_balance := v\<rparr> # cs0"
      by (auto simp: and_then_Inr)
    from v have "new_balance strict f c = v" by (simp add: new_balance_def)
    with Cons.IH[OF r] True v e show ?thesis by simp
  next
    case False
    with Cons.prems obtain cs0 where
      r: "set_balances strict x f cs = Inr cs0" and e: "cs' = c # cs0"
      by (auto simp: and_then_Inr)
    with Cons.IH[OF r] False show ?thesis by simp
  qed
qed

lemma set_balances_ok:
  assumes "\<forall>c\<in>set cs. of_nat (c_id c) = x \<longrightarrow>
        (\<exists>v. to_decimal strict (f (decimal_value (current_balance c))) = Inr v)"
  shows "set_balances strict x f cs =
     Inr (map (\<lambda>c. if of_nat (c_id c) = x then c\<lparr>current_balance := new_balance strict f c\<rparr> else c) cs)"
  using assms
proof (induction cs)
  case Nil
  then show ?case by simp
next
  case (Cons c cs)
  then show ?case
    by (auto simp: and_then_def new_balance_def)
qed

lemma set_balances_nonstrict: "\<exists>cs'. set_balances False x f cs = Inr cs'"
proof -
  have "\<exists>v. to_decimal False y = Inr v" for y
    by (simp add: to_decimal_def into_range_def)
  then show ?thesis
    using set_balances_ok[of cs x False f] by blast
qed

lemma map_ids_cond:
  assumes "\<And>c. c_id (f c) = c_id c"
  shows "map c_id (map (\<lambda>c. if P c then f c else c) cs) = map c_id cs"
  using assms by (induction cs) auto


lemma set_balances_ids:
  "set_balances strict x f cs = Inr cs' \<Longrightarrow> map c_id cs' = map c_id cs"
  by (drule set_balances_Inr) (simp del: map_map add: map_ids_cond)

lemma has_customer_ids:
  "map c_id (customers d') = map c_id (customers d) \<Longrightarrow> has_customer k d' = has_customer k d"
  by (simp only: has_customer_def)

lemma insert_payment_Inr:
  "insert_payment now x amt nt d = Inr (i, d1) \<longleftrightarrow>
     (\<exists>k v. to_int (strict_mode d) x = Inr k \<and> to_decimal (strict_mode d) amt = Inr v \<and>
        0 \<le> k \<and> has_customer (nat k) d \<and> i = payments_auto_increment d \<and>
        d1 = d\<lparr>payments := payments d @
                      [\<lparr>p_id = payments_auto_increment d, p_customer_id = nat k, amount = v,
                        payment_date = now, p_note = nt\<rparr>],
                   payments_auto_increment := Suc (payments_auto_increment d)\<rparr>)"
  by (auto simp: insert_payment_def and_then_Inr)

lemma subtract_from_balance_Inr:
  "subtract_from_balance amt x d = Inr (u, d2) \<longleftrightarrow>
     (\<exists>cs. set_balances (strict_mode d) x (\<lambda>b. b - amt) (customers d) = Inr cs \<and>
        d2 = d\<lparr>customers := cs\<rparr>)"
  by (auto simp: subtract_from_balance_def and_then_Inr)

lemma restore_rows_fields [simp]:
  "customers (restore_rows d0 d) = customers d0"
  "orders (restore_rows d0 d) = orders d0"
  "payments (restore_rows d0 d) = payments d0"
  "customers_auto_increment (restore_rows d0 d) = customers_auto_increment d"
  "orders_auto_increment (restore_rows d0 d) = orders_auto_increment d"
  "payments_auto_increment (restore_rows d0 d) = payments_auto_increment d"
  "strict_mode (restore_rows d0 d) = strict_mode d"
  by (simp_all add: restore_rows_def)

lemma restore_rows_same [simp]: "restore_rows d d = d"
  by (simp add: restore_rows_def)

subsection \<open>Payments\<close>

lemma post_payments_eq:
  "post_payments flt now body d =
     (case (pay_customer_id body, pay_amount body) of
        (Some x, Some a) \<Rightarrow>
          if x = 0 \<or> a = 0 then (Inl PaymentFieldsRequired, d)
          else if flt 0 \<or> flt 1 then (Inl (QueryFailed StoreFault), d)
          else
            (case insert_payment now x a (or_null (pay_note body)) d of
               Inl e \<Rightarrow> (Inl (QueryFailed e), d)
             | Inr (i, d1) \<Rightarrow>
                 if flt 2 then (Inl (QueryFailed StoreFault), restore_rows d d1)
                 else
                   (case subtract_from_balance a x d1 of
                      Inl e \<Rightarrow> (Inl (QueryFailed e), restore_rows d d1)
                    | Inr (u, d2) \<Rightarrow>
                        if flt 3 \<or> flt 4 \<or> (in_credit x d2 \<and> flt 5)
                        then (Inl (QueryFailed StoreFault), restore_rows d d2)
                        else
                          (case (if in_credit x d2 then mark_paid x d2 else Inr ((), d2)) of
                             Inl e \<Rightarrow> (Inl (QueryFailed e), restore_rows d d2)
                           | Inr (u, d3) \<Rightarrow>
                               if flt (if in_credit x d2 then 6 else 5)
                               then (Inl (QueryFailed StoreFault), d3)
                               else (Inr (first_row (filter (\<lambda>p. p_id p = i) (payments d3))),
                                     d3))))
      | _ \<Rightarrow> (Inl PaymentFieldsRequired, d))"
  by (simp add: post_payments_def try_payment_def await_def query_def return_def
      beginTransaction_def commit_def connect_def rollback_def hd_rows
      select_balance_def mark_paid_def select_payment_def
      in_credit_def balance_of_def eval_nat_numeral
      split: option.splits sum.splits prod.splits)

lemma payment_statements_Inr:
  "payment_statements now x a nt d = Inr d' \<longleftrightarrow>
     (\<exists>i d1 u d2. insert_payment now x a (or_null nt) d = Inr (i, d1) \<and>
        subtract_from_balance a x d1 = Inr (u, d2) \<and>
        d' = (if in_credit x d2
              then d2\<lparr>orders := map (\<lambda>r. if of_nat (o_customer_id r) = x \<and> status r = Pending
                                           then r\<lparr>status := Paid\<rparr> else r) (orders d2)\<rparr>
              else d2))"
  by (auto simp: payment_statements_def and_then_Inr mark_paid_def)

lemma post_payments_Inr:
  assumes "post_payments flt now body d = (Inr r, d')"
  shows "\<exists>x a. pay_customer_id body = Some x \<and> pay_amount body = Some a \<and> x \<noteq> 0 \<and> a \<noteq> 0 \<and>
           payment_statements now x a (pay_note body) d = Inr d' \<and>
           r = first_row (filter (\<lambda>p. p_id p = payments_auto_increment d) (payments d'))"
  using assms unfolding post_payments_eq payment_statements_Inr
  by (auto simp: mark_paid_def insert_payment_Inr split: option.splits if_splits sum.splits prod.splits)

lemma post_payments_Inl:
  assumes "post_payments flt now body d = (Inl e, d')"
  shows "same_rows d d' \<and> customers_auto_increment d' = customers_auto_increment d \<and>
           strict_mode d' = strict_mode d \<or>
         e = QueryFailed StoreFault \<and>
         (\<exists>x a. pay_customer_id body = Some x \<and> pay_amount body = Some a \<and> x \<noteq> 0 \<and> a \<noteq> 0 \<and>
           payment_statements now x a (pay_note body) d = Inr d')"
  using assms unfolding post_payments_eq payment_statements_Inr
  by (auto simp: mark_paid_def same_rows_def insert_payment_Inr subtract_from_balance_Inr
      split: option.splits if_splits sum.splits prod.splits)

lemma post_payments_no_faults:
  assumes "pay_customer_id body = Some x" and "pay_amount body = Some a" and "x \<noteq> 0" and "a \<noteq> 0"
    and "payment_statements now x a (pay_note body) d = Inr d'"
  shows "post_payments no_faults now body d =
     (Inr (first_row (filter (\<lambda>p. p_id p = payments_auto_increment d) (payments d'))), d')"
proof -
  from assms(5) obtain i d1 u d2 where
    i: "insert_payment now x a (or_null (pay_note body)) d = Inr (i, d1)"
    and s: "subtract_from_balance a x d1 = Inr (u, d2)"
    and d': "d' = (if in_credit x d2
              then d2\<lparr>orders := map (\<lambda>r. if of_nat (o_customer_id r) = x \<and> status r = Pending
                                           then r\<lparr>status := Paid\<rparr> else r) (orders d2)\<rparr>
              else d2)"
    unfolding payment_statements_Inr by blast
  from i have "i = payments_auto_increment d"
    unfolding insert_payment_Inr by blast
  with assms(1-4) i s d' show ?thesis
    by (simp add: post_payments_eq no_faults_def mark_paid_def)
qed

lemma balance_of_map:
  "balance_of x (d\<lparr>customers :=
       map (\<lambda>c. if of_nat (c_id c) = x then c\<lparr>current_balance := g c\<rparr> else c) (customers d)\<rparr>)
     = map_option g (first_row (filter (\<lambda>c. of_nat (c_id c) = x) (customers d)))"
proof -
  have "first_row (map current_balance (filter (\<lambda>c. of_nat (c_id c) = x)
          (map (\<lambda>c. if of_nat (c_id c) = x then c\<lparr>current_balance := g c\<rparr> else c) cs)))
        = map_option g (first_row (filter (\<lambda>c. of_nat (c_id c) = x) cs))" for cs
    by (induction cs) (auto simp: first_row_def)
  then show ?thesis by (simp add: balance_of_def)
qed

lemma balance_of_first:
  "balance_of x d = map_option current_balance (first_row (filter (\<lambda>c. of_nat (c_id c) = x) (customers d)))"
  by (cases "filter (\<lambda>c. of_nat (c_id c) = x) (customers d)") (simp_all add: balance_of_def first_row_def)

lemma first_row_in: "first_row xs = Some y \<Longrightarrow> y \<in> set xs"
  by (cases xs) (auto simp: first_row_def)

lemma balance_of_orders [simp]: "balance_of x (d\<lparr>orders := os\<rparr>) = balance_of x d"
  by (simp add: balance_of_def)

lemma in_credit_orders [simp]: "in_credit x (d\<lparr>orders := os\<rparr>) = in_credit x d"
  by (simp add: in_credit_def)

lemma payment_statements_fields:
  assumes "payment_statements now x a nt d = Inr d'"
  shows "\<exists>k v. to_int (strict_mode d) x = Inr k \<and> 0 \<le> k \<and> has_customer (nat k) d \<and>
      to_decimal (strict_mode d) a = Inr v \<and>
      payments d' = payments d @
        [\<lparr>p_id = payments_auto_increment d, p_customer_id = nat k, amount = v,
          payment_date = now, p_note = or_null nt\<rparr>]"
    and "customers d' =
      map (\<lambda>c. if of_nat (c_id c) = x
               then c\<lparr>current_balance := new_balance (strict_mode d) (\<lambda>b. b - a) c\<rparr> else c)
        (customers d)"
    and "\<forall>c\<in>set (customers d). of_nat (c_id c) = x \<longrightarrow>
      to_decimal (strict_mode d) (decimal_value (current_balance c) - a) =
        Inr (new_balance (strict_mode d) (\<lambda>b. b - a) c)"
    and "orders d' =
      (if in_credit x d'
       then map (\<lambda>r. if of_nat (o_customer_id r) = x \<and> status r = Pending
                     then r\<lparr>status := Paid\<rparr> else r) (orders d)
       else orders d)"
    and "customers_auto_increment d' = customers_auto_increment d"
    and "strict_mode d' = strict_mode d"
proof -
  from assms obtain i d1 u d2 where
    i: "insert_payment now x a (or_null nt) d = Inr (i, d1)"
    and s: "subtract_from_balance a x d1 = Inr (u, d2)"
    and d': "d' = (if in_credit x d2
              then d2\<lparr>orders := map (\<lambda>r. if of_nat (o_customer_id r) = x \<and> status r = Pending
                                           then r\<lparr>status := Paid\<rparr> else r) (orders d2)\<rparr>
              else d2)"
    unfolding payment_statements_Inr by blast
  from i obtain k v where kv: "to_int (strict_mode d) x = Inr k" "to_decimal (strict_mode d) a = Inr v"
    "0 \<le> k" "has_customer (nat k) d"
    and d1: "d1 = d\<lparr>payments := payments d @
                      [\<lparr>p_id = payments_auto_increment d, p_customer_id = nat k, amount = v,
                        payment_date = now, p_note = or_null nt\<rparr>],
                   payments_auto_increment := Suc (payments_auto_increment d)\<rparr>"
    unfolding insert_payment_Inr by blast
  from s obtain cs where cs: "set_balances (strict_mode d1) x (\<lambda>b. b - a) (customers d1) = Inr cs"
    and d2: "d2 = d1\<lparr>customers := cs\<rparr>"
    unfolding subtract_from_balance_Inr by blast
  note sb = set_balances_Inr[OF cs]
  have c: "in_credit x d' = in_credit x d2"
    by (simp add: d')
  show "\<exists>k v. to_int (strict_mode d) x = Inr k \<and> 0 \<le> k \<and> has_customer (nat k) d \<and>
      to_decimal (strict_mode d) a = Inr v \<and>
      payments d' = payments d @
        [\<lparr>p_id = payments_auto_increment d, p_customer_id = nat k, amount = v,
          payment_date = now, p_note = or_null nt\<rparr>]"
    using kv by (auto simp: d' d2 d1)
  show "customers d' =
      map (\<lambda>c. if of_nat (c_id c) = x
               then c\<lparr>current_balance := new_balance (strict_mode d) (\<lambda>b. b - a) c\<rparr> else c)
        (customers d)"
    using sb by (simp add: d' d2 d1)
  show "\<forall>c\<in>set (customers d). of_nat (c_id c) = x \<longrightarrow>
      to_decimal (strict_mode d) (decimal_value (current_balance c) - a) =
        Inr (new_balance (strict_mode d) (\<lambda>b. b - a) c)"
    using sb by (simp add: d1)
  show "orders d' =
      (if in_credit x d'
       then map (\<lambda>r. if of_nat (o_customer_id r) = x \<and> status r = Pending
                     then r\<lparr>status := Paid\<rparr> else r) (orders d)
       else orders d)"
    unfolding c by (simp add: d' d2 d1)
  show "customers_auto_increment d' = customers_auto_increment d"
    "strict_mode d' = strict_mode d"
    by (simp_all add: d' d2 d1)
qed

lemma payment_statements_balance:
  assumes "payment_statements now x a nt d = Inr d'"
  shows "case balance_of x d of
           None \<Rightarrow> balance_of x d' = None
         | Some b \<Rightarrow> \<exists>b'. to_decimal (strict_mode d) (decimal_value b - a) = Inr b' \<and>
                          balance_of x d' = Some b'"
proof -
  let ?g = "new_balance (strict_mode d) (\<lambda>b. b - a)"
  note f = payment_statements_fields[OF assms]
  have "customers d' = customers (d\<lparr>customers :=
      map (\<lambda>c. if of_nat (c_id c) = x then c\<lparr>current_balance := ?g c\<rparr> else c) (customers d)\<rparr>)"
    using f(2) by simp
  then have b': "balance_of x d' =
      map_option ?g (first_row (filter (\<lambda>c. of_nat (c_id c) = x) (customers d)))"
    using balance_of_map[of x ?g d] by (simp add: balance_of_def)
  note bd = balance_of_first[of x d]
  show ?thesis
  proof (cases "first_row (filter (\<lambda>c. of_nat (c_id c) = x) (customers d))")
    case None
    then show ?thesis unfolding bd b' by simp
  next
    case (Some c)
    from first_row_in[OF Some] have "c \<in> set (customers d)" "of_nat (c_id c) = x"
      by auto
    with f(3) have "to_decimal (strict_mode d) (decimal_value (current_balance c) - a) = Inr (?g c)"
      by blast
    with Some show ?thesis unfolding bd b' by simp
  qed
qed

lemma in_credit_iff: "in_credit x d \<longleftrightarrow> (\<exists>b. balance_of x d = Some b \<and> b \<le> 0)"
  by (auto simp: in_credit_def split: option.splits)

lemma two_pending_orders_balance: "balance_of 1 (two_pending_orders strict) = Some 15000"
  by (simp add: balance_of_def first_row_def two_pending_orders_rows)

text \<open>
  C2. When a payment succeeds, its row is appended with the id and the amount as the
  columns hold them, the customer's balance is lowered by the amount, stored as the
  \<open>DECIMAL(12,2)\<close> column holds it, and read again: if it is at most 0, exactly the pending
  orders of that customer become paid, whatever their totals and dates, and every other
  order stays as it was; if it is above 0, or no row has the id, no order changes. With
  the two pending orders of 100.00 and 50.00, every payment of 150 or more that succeeds
  makes both paid, and it does succeed up to 9999999999.99 when the store answers; a
  payment of 100 succeeds, leaves both pending and the balance at 50.00.
\<close>

theorem post_payments_settlement:
  "(post_payments flt now body d = (Inr r, d') \<longrightarrow>
      (\<exists>x a k v. pay_customer_id body = Some x \<and> pay_amount body = Some a \<and>
         to_int (strict_mode d) x = Inr k \<and> to_decimal (strict_mode d) a = Inr v \<and>
         payments d' = payments d @
           [\<lparr>p_id = payments_auto_increment d, p_customer_id = nat k, amount = v,
             payment_date = now, p_note = or_null (pay_note body)\<rparr>] \<and>
         (case balance_of x d of
            None \<Rightarrow> balance_of x d' = None
          | Some b \<Rightarrow> \<exists>b'. to_decimal (strict_mode d) (decimal_value b - a) = Inr b' \<and>
                           balance_of x d' = Some b') \<and>
         length (orders d') = length (orders d) \<and>
         (\<forall>i<length (orders d).
            orders d' ! i =
              (if (\<exists>b'. balance_of x d' = Some b' \<and> b' \<le> 0) \<and>
                  of_nat (o_customer_id (orders d ! i)) = x \<and> status (orders d ! i) = Pending
               then (orders d ! i)\<lparr>status := Paid\<rparr> else orders d ! i)))) \<and>
   (150 \<le> a \<and>
    post_payments flt now \<lparr>pay_customer_id = Some 1, pay_amount = Some a, pay_note = nt\<rparr>
      (two_pending_orders strict) = (Inr r, d') \<longrightarrow>
      map status (orders d') = [Paid, Paid]) \<and>
   (150 \<le> a \<and> a \<le> 9999999999.99 \<longrightarrow>
      (\<exists>p. fst (post_payments no_faults now
                  \<lparr>pay_customer_id = Some 1, pay_amount = Some a, pay_note = nt\<rparr>
                  (two_pending_orders strict)) = Inr p)) \<and>
   (\<exists>p. fst (post_payments no_faults now
                  \<lparr>pay_customer_id = Some 1, pay_amount = Some 100, pay_note = nt\<rparr>
                  (two_pending_orders strict)) = Inr p) \<and>
   map status (orders (snd (post_payments no_faults now
         \<lparr>pay_customer_id = Some 1, pay_amount = Some 100, pay_note = nt\<rparr>
         (two_pending_orders strict))))
        = [Pending, Pending] \<and>
   balance_of 1 (snd (post_payments no_faults now
         \<lparr>pay_customer_id = Some 1, pay_amount = Some 100, pay_note = nt\<rparr>
         (two_pending_orders strict)))
        = Some 5000"
proof -
  have rule: "\<exists>x a k v. pay_customer_id body = Some x \<and> pay_amount body = Some a \<and>
         to_int (strict_mode d) x = Inr k \<and> to_decimal (strict_mode d) a = Inr v \<and>
         payments d' = payments d @
           [\<lparr>p_id = payments_auto_increment d, p_customer_id = nat k, amount = v,
             payment_date = now, p_note = or_null (pay_note body)\<rparr>] \<and>
         (case balance_of x d of
            None \<Rightarrow> balance_of x d' = None
          | Some b \<Rightarrow> \<exists>b'. to_decimal (strict_mode d) (decimal_value b - a) = Inr b' \<and>
                           balance_of x d' = Some b') \<and>
         length (orders d') = length (orders d) \<and>
         (\<forall>i<length (orders d).
            orders d' ! i =
              (if (\<exists>b'. balance_of x d' = Some b' \<and> b' \<le> 0) \<and>
                  of_nat (o_customer_id (orders d ! i)) = x \<and> status (orders d ! i) = Pending
               then (orders d ! i)\<lparr>status := Paid\<rparr> else orders d ! i))"
    if ok: "post_payments flt now body d = (Inr r, d')" for flt now body d r d'
  proof -
    from post_payments_Inr[OF ok] obtain x a where
      xa: "pay_customer_id body = Some x" "pay_amount body = Some a"
      and ps: "payment_statements now x a (pay_note body) d = Inr d'"
      by blast
    from payment_statements_fields(1)[OF ps] obtain k v where
      kv: "to_int (strict_mode d) x = Inr k" "to_decimal (strict_mode d) a = Inr v"
      "payments d' = payments d @
           [\<lparr>p_id = payments_auto_increment d, p_customer_id = nat k, amount = v,
             payment_date = now, p_note = or_null (pay_note body)\<rparr>]"
      by blast
    note b = payment_statements_balance[OF ps]
    note os = payment_statements_fields(4)[OF ps, unfolded in_credit_iff]
    have l: "length (orders d') = length (orders d)"
      by (simp add: os)
    have n: "\<forall>i<length (orders d).
            orders d' ! i =
              (if (\<exists>b'. balance_of x d' = Some b' \<and> b' \<le> 0) \<and>
                  of_nat (o_customer_id (orders d ! i)) = x \<and> status (orders d ! i) = Pending
               then (orders d ! i)\<lparr>status := Paid\<rparr> else orders d ! i)"
      by (subst os) simp
    from xa kv b l n show ?thesis by blast
  qed
  have paid: "map status (orders d') = [Paid, Paid]"
    if a: "150 \<le> a"
      and ok: "post_payments flt now \<lparr>pay_customer_id = Some 1, pay_amount = Some a, pay_note = nt\<rparr>
        (two_pending_orders strict) = (Inr r, d')"
  proof -
    from post_payments_Inr[OF ok]
    have ps: "payment_statements now 1 a nt (two_pending_orders strict) = Inr d'"
      by simp
    have sm: "strict_mode (two_pending_orders strict) = strict"
      by (simp add: two_pending_orders_rows)
    from payment_statements_balance[OF ps]
    have "\<exists>b'. to_decimal strict (decimal_value 15000 - a) = Inr b' \<and> balance_of 1 d' = Some b'"
      unfolding two_pending_orders_balance sm by simp
    then obtain b' where
      b': "to_decimal strict (decimal_value 15000 - a) = Inr b'" "balance_of 1 d' = Some b'"
      by blast
    from a have "decimal_value 15000 - a \<le> 0"
      by (simp add: decimal_value_def)
    with b'(1) have "b' \<le> 0" by (rule to_decimal_nonpos)
    with b'(2) have "in_credit 1 d'" by (simp add: in_credit_iff)
    with payment_statements_fields(4)[OF ps] show ?thesis
      by (simp add: two_pending_orders_rows)
  qed
  have stmts: "payment_statements now 1 a nt (two_pending_orders strict) =
      Inr ((two_pending_orders strict)
        \<lparr>payments := [\<lparr>p_id = 1, p_customer_id = 1, amount = round_half_away (a * 100),
                        payment_date = now, p_note = or_null nt\<rparr>],
          payments_auto_increment := 2,
          customers := [\<lparr>c_id = 1, c_name = [65, 121, 115, 101], c_phone = None,
                     current_balance = round_half_away ((150 - a) * 100), created_at = 0\<rparr>],
          orders := (if round_half_away ((150 - a) * 100) \<le> 0
                     then map (\<lambda>r. r\<lparr>status := Paid\<rparr>) (orders (two_pending_orders strict))
                     else orders (two_pending_orders strict))\<rparr>)"
    if r: "- decimal_max \<le> round_half_away (a * 100)" "round_half_away (a * 100) \<le> decimal_max"
      "- decimal_max \<le> round_half_away ((150 - a) * 100)"
      "round_half_away ((150 - a) * 100) \<le> decimal_max" for a
  proof -
    have 1: "to_decimal strict a = Inr (round_half_away (a * 100))"
      using r by (simp add: to_decimal_in_range)
    have 2: "to_decimal strict (150 - a) = Inr (round_half_away ((150 - a) * 100))"
      using r by (simp add: to_decimal_in_range)
    show ?thesis
      by (simp add: payment_statements_def insert_payment_def subtract_from_balance_def
          mark_paid_def and_then_def to_int_def into_range_def has_customer_def in_credit_def
          balance_of_def first_row_def decimal_value_def 1 2 two_pending_orders_rows)
  qed
  have ok: "\<exists>p. fst (post_payments no_faults now
                  \<lparr>pay_customer_id = Some 1, pay_amount = Some a, pay_note = nt\<rparr>
                  (two_pending_orders strict)) = Inr p"
    if a: "150 \<le> a" "a \<le> 9999999999.99"
  proof -
    have i: "a * 100 = of_int n \<Longrightarrow> round_half_away (a * 100) = n" for n by simp
    from a have "15000 \<le> a * 100" "a * 100 \<le> 999999999999" by simp_all
    then have "0 \<le> a * 100 + 1 / 2" "a * 100 + 1 / 2 < 999999999999 + 1" by simp_all
    then have f: "0 \<le> \<lfloor>a * 100 + 1 / 2\<rfloor>" "\<lfloor>a * 100 + 1 / 2\<rfloor> \<le> 999999999999"
      by (simp_all add: floor_less_iff le_floor_iff)
    from a have p: "0 \<le> a * 100" by simp
    with f have 1: "- decimal_max \<le> round_half_away (a * 100)"
      "round_half_away (a * 100) \<le> decimal_max"
      by (simp_all add: round_half_away_def decimal_max_def)
    from a have "(150 - a) * 100 \<le> 0" "- 999999999999 \<le> (150 - a) * 100" by simp_all
    then have 2: "- decimal_max \<le> round_half_away ((150 - a) * 100)"
      "round_half_away ((150 - a) * 100) \<le> decimal_max"
      unfolding round_half_away_def decimal_max_def
      by (auto simp: le_floor_iff floor_le_iff le_ceiling_iff ceiling_le_iff)
    from a have nz: "a \<noteq> 0" by auto
    let ?body = "\<lparr>pay_customer_id = Some 1, pay_amount = Some a, pay_note = nt\<rparr>"
    from stmts[OF 1 2] obtain d' where
      "payment_statements now 1 a (pay_note ?body) (two_pending_orders strict) = Inr d'"
      by simp
    from post_payments_no_faults[of ?body 1 a now "two_pending_orders strict" d'] this nz
    show ?thesis by simp
  qed
  have hundred: "post_payments no_faults now
       \<lparr>pay_customer_id = Some 1, pay_amount = Some 100, pay_note = nt\<rparr>
       (two_pending_orders strict) =
     (Inr (Some \<lparr>p_id = 1, p_customer_id = 1, amount = 10000,
                        payment_date = now, p_note = or_null nt\<rparr>),
      (two_pending_orders strict)
        \<lparr>payments := [\<lparr>p_id = 1, p_customer_id = 1, amount = 10000,
                        payment_date = now, p_note = or_null nt\<rparr>],
          payments_auto_increment := 2,
          customers := [\<lparr>c_id = 1, c_name = [65, 121, 115, 101], c_phone = None,
                     current_balance = 5000, created_at = 0\<rparr>]\<rparr>)"
  proof -
    have "payment_statements now 1 100 nt (two_pending_orders strict) =
      Inr ((two_pending_orders strict)
        \<lparr>payments := [\<lparr>p_id = 1, p_customer_id = 1, amount = 10000,
                        payment_date = now, p_note = or_null nt\<rparr>],
          payments_auto_increment := 2,
          customers := [\<lparr>c_id = 1, c_name = [65, 121, 115, 101], c_phone = None,
                     current_balance = 5000, created_at = 0\<rparr>]\<rparr>)"
      using stmts[of 100] by (simp add: decimal_max_def)
    from post_payments_no_faults[of
        "\<lparr>pay_customer_id = Some 1, pay_amount = Some 100, pay_note = nt\<rparr>" 1 100 now
        "two_pending_orders strict"] this
    show ?thesis
      by (simp add: first_row_def two_pending_orders_rows)
  qed
  have h: "\<exists>p. fst (post_payments no_faults now
                  \<lparr>pay_customer_id = Some 1, pay_amount = Some 100, pay_note = nt\<rparr>
                  (two_pending_orders strict)) = Inr p"
    "map status (orders (snd (post_payments no_faults now
         \<lparr>pay_customer_id = Some 1, pay_amount = Some 100, pay_note = nt\<rparr>
         (two_pending_orders strict)))) = [Pending, Pending]"
    "balance_of 1 (snd (post_payments no_faults now
         \<lparr>pay_customer_id = Some 1, pay_amount = Some 100, pay_note = nt\<rparr>
         (two_pending_orders strict))) = Some 5000"
    unfolding hundred by (simp_all add: balance_of_def first_row_def two_pending_orders_rows)
  from rule paid ok h show ?thesis by blast
qed

lemmas payment_eval =
  post_payments_eq insert_payment_def subtract_from_balance_def mark_paid_def and_then_def
  to_int_def to_decimal_def into_range_def decimal_max_def decimal_value_def
  has_customer_def in_credit_def balance_of_def first_row_def or_null_def

theorem post_payments_settlement_witness:
  "post_payments no_faults 2 \<lparr>pay_customer_id = Some 1, pay_amount = Some 150, pay_note = None\<rparr>
     (two_pending_orders True) =
     (Inr (Some \<lparr>p_id = 1, p_customer_id = 1, amount = 15000, payment_date = 2, p_note = None\<rparr>),
      (two_pending_orders True)
        \<lparr>payments := [\<lparr>p_id = 1, p_customer_id = 1, amount = 15000, payment_date = 2,
                        p_note = None\<rparr>],
          payments_auto_increment := 2,
          customers := [\<lparr>c_id = 1, c_name = [65, 121, 115, 101], c_phone = None,
                         current_balance = 0, created_at = 0\<rparr>],
          orders := map (\<lambda>r. r\<lparr>status := Paid\<rparr>) (orders (two_pending_orders True))\<rparr>) \<and>
   (150 :: rat) \<le> 150 \<and>
   map status (orders (two_pending_orders True)) = [Pending, Pending] \<and>
   map status (map (\<lambda>r. r\<lparr>status := Paid\<rparr>) (orders (two_pending_orders True))) = [Paid, Paid]"
proof -
  let ?body = "\<lparr>pay_customer_id = Some 1, pay_amount = Some 150, pay_note = None\<rparr>"
  let ?r = "Some \<lparr>p_id = 1, p_customer_id = 1, amount = 15000, payment_date = 2, p_note = None\<rparr>"
  let ?d' = "(two_pending_orders True)
        \<lparr>payments := [\<lparr>p_id = 1, p_customer_id = 1, amount = 15000, payment_date = 2,
                        p_note = None\<rparr>],
          payments_auto_increment := 2,
          customers := [\<lparr>c_id = 1, c_name = [65, 121, 115, 101], c_phone = None,
                         current_balance = 0, created_at = 0\<rparr>],
          orders := map (\<lambda>r. r\<lparr>status := Paid\<rparr>) (orders (two_pending_orders True))\<rparr>"
  have h: "post_payments no_faults 2 ?body (two_pending_orders True) = (Inr ?r, ?d')"
    by (simp add: payment_eval no_faults_def two_pending_orders_rows)
  from h post_payments_settlement [of no_faults 2 ?body "two_pending_orders True" ?r ?d' 150
      None True]
  show ?thesis
    by (simp add: two_pending_orders_rows)
qed

lemma round_half_away_tenth:
  "round_half_away (- (1 / 10)) = 0" "round_half_away (150001 / 10) = 15000"
  unfolding round_half_away_def by (simp_all add: ceiling_eq_iff floor_eq_iff)

text \<open>
  A payment of -0.001 by the customer of the two pending orders is accepted: the row
  holds the amount 0.00 and the balance stays at 150.00, since both are rounded to two
  decimal places.
\<close>

theorem post_payments_negative_amount_counterexample:
  "has_customer 1 (two_pending_orders True) \<and> (- 1 / 1000 :: rat) < 0 \<and>
   fst (post_payments no_faults 2
          \<lparr>pay_customer_id = Some 1, pay_amount = Some (- 1 / 1000), pay_note = None\<rparr>
          (two_pending_orders True))
     = Inr (Some \<lparr>p_id = 1, p_customer_id = 1, amount = 0, payment_date = 2, p_note = None\<rparr>) \<and>
   balance_of 1 (two_pending_orders True) = Some 15000 \<and>
   balance_of 1 (snd (post_payments no_faults 2
          \<lparr>pay_customer_id = Some 1, pay_amount = Some (- 1 / 1000), pay_note = None\<rparr>
          (two_pending_orders True)))
     = Some 15000"
  by (simp add: payment_eval no_faults_def two_pending_orders_rows round_half_away_tenth)

text \<open>
  C9. The check of the body does not ask for a positive amount. A payment by an existing
  customer with a negative amount of at most two decimal places passes it when the
  amount and the resulting balance fit a \<open>DECIMAL(12,2)\<close> column: the payment row is
  inserted with that amount, and the customer's balance rises by the absolute value of
  the amount.
\<close>

theorem post_payments_negative_amount:
  assumes "pay_customer_id body = Some (of_nat k)" and "k \<noteq> 0" and "k \<le> 2147483647"
    and "has_customer k d"
    and "pay_amount body = Some a" and "a < 0" and "hundredths a"
    and "- decimal_max \<le> \<lfloor>a * 100\<rfloor>"
    and "\<forall>c\<in>set (customers d). c_id c = k \<longrightarrow>
           - decimal_max \<le> current_balance c - \<lfloor>a * 100\<rfloor> \<and>
           current_balance c - \<lfloor>a * 100\<rfloor> \<le> decimal_max"
  shows "\<exists>p d'. post_payments no_faults now body d = (Inr p, d') \<and>
           payments d' = payments d @
             [\<lparr>p_id = payments_auto_increment d, p_customer_id = k, amount = \<lfloor>a * 100\<rfloor>,
               payment_date = now, p_note = or_null (pay_note body)\<rparr>] \<and>
           of_int \<lfloor>a * 100\<rfloor> = a * 100 \<and>
           customers d' =
             map (\<lambda>c. if c_id c = k
                      then c\<lparr>current_balance := current_balance c + \<bar>\<lfloor>a * 100\<rfloor>\<bar>\<rparr> else c)
               (customers d)"
proof -
  let ?n = "\<lfloor>a * 100\<rfloor>"
  let ?m = "strict_mode d"
  from assms(7) have n: "a * 100 = of_int ?n"
    unfolding hundredths_def by (rule sym)
  from assms(6) have "a * 100 < 0" by simp
  with n have neg: "?n < 0" by linarith
  have ti: "to_int ?m (of_nat k) = Inr (int k)"
    using assms(3) round_half_away_of_int[of "int k"]
    by (simp add: to_int_def into_range_def)
  have td: "to_decimal ?m a = Inr ?n"
    using assms(8) neg round_half_away_of_int[of ?n] n
    by (simp add: to_decimal_def into_range_def decimal_max_def)
  have nb: "to_decimal ?m (decimal_value (current_balance c) - a) = Inr (current_balance c - ?n)"
    if "c \<in> set (customers d)" "c_id c = k" for c
  proof -
    have "(decimal_value (current_balance c) - a) * 100 = of_int (current_balance c - ?n)"
      using n by (simp add: decimal_value_def algebra_simps)
    then have "round_half_away ((decimal_value (current_balance c) - a) * 100) = current_balance c - ?n"
      using round_half_away_of_int[of "current_balance c - ?n"] by simp
    with assms(9) that show ?thesis
      by (simp add: to_decimal_def into_range_def)
  qed
  have eqk: "(of_nat (c_id c) = (of_nat k :: rat)) = (c_id c = k)" for c
    by simp
  have sb: "set_balances ?m (of_nat k) (\<lambda>b. b - a) (customers d) =
      Inr (map (\<lambda>c. if c_id c = k then c\<lparr>current_balance := current_balance c - ?n\<rparr> else c)
             (customers d))"
  proof -
    have "\<forall>c\<in>set (customers d). of_nat (c_id c) = (of_nat k :: rat) \<longrightarrow>
        (\<exists>v. to_decimal ?m ((\<lambda>b. b - a) (decimal_value (current_balance c))) = Inr v)"
      using nb by (simp add: eqk)
    from set_balances_ok[OF this]
    have "set_balances ?m (of_nat k) (\<lambda>b. b - a) (customers d) =
      Inr (map (\<lambda>c. if c_id c = k
                    then c\<lparr>current_balance := new_balance ?m (\<lambda>b. b - a) c\<rparr> else c)
             (customers d))"
      by (simp add: eqk)
    moreover have "map (\<lambda>c. if c_id c = k
                    then c\<lparr>current_balance := new_balance ?m (\<lambda>b. b - a) c\<rparr> else c)
             (customers d) =
        map (\<lambda>c. if c_id c = k then c\<lparr>current_balance := current_balance c - ?n\<rparr> else c)
             (customers d)"
      using nb by (auto simp: new_balance_def)
    ultimately show ?thesis by simp
  qed
  let ?d2 = "d\<lparr>payments := payments d @
                      [\<lparr>p_id = payments_auto_increment d, p_customer_id = k, amount = ?n,
                        payment_date = now, p_note = or_null (pay_note body)\<rparr>],
                   payments_auto_increment := Suc (payments_auto_increment d),
                   customers := map (\<lambda>c. if c_id c = k
                       then c\<lparr>current_balance := current_balance c - ?n\<rparr> else c) (customers d)\<rparr>"
  have "\<exists>d'. payment_statements now (of_nat k) a (pay_note body) d = Inr d' \<and>
      payments d' = payments ?d2 \<and> customers d' = customers ?d2"
    using assms(4) ti td sb
    by (simp add: payment_statements_def insert_payment_def subtract_from_balance_def
        mark_paid_def and_then_def)
  then obtain d' where d': "payment_statements now (of_nat k) a (pay_note body) d = Inr d'"
    "payments d' = payments ?d2" "customers d' = customers ?d2"
    by blast
  have k0: "(of_nat k :: rat) \<noteq> 0" using assms(2) by simp
  have a0: "a \<noteq> 0" using assms(6) by simp
  have ab: "current_balance c - ?n = current_balance c + \<bar>?n\<bar>" for c
    using neg by simp
  from post_payments_no_faults[OF assms(1) assms(5) k0 a0 d'(1)] d'(2,3) n
  show ?thesis
    by (simp add: ab)
qed

theorem post_payments_negative_amount_witness:
  "has_customer 1 (two_pending_orders True) \<and> (- 25 :: rat) < 0 \<and> hundredths (- 25) \<and>
   - decimal_max \<le> \<lfloor>(- 25 :: rat) * 100\<rfloor> \<and>
   map current_balance (customers (two_pending_orders True)) = [15000] \<and>
   15000 - \<lfloor>(- 25 :: rat) * 100\<rfloor> \<le> decimal_max \<and>
   (\<exists>p d'. post_payments no_faults 2
              \<lparr>pay_customer_id = Some 1, pay_amount = Some (- 25), pay_note = None\<rparr>
              (two_pending_orders True) = (Inr p, d') \<and>
            map amount (payments d') = [- 2500] \<and>
            map current_balance (customers d') = [17500])"
proof -
  have h: "has_customer 1 (two_pending_orders True)" "hundredths (- 25)"
    "- decimal_max \<le> \<lfloor>(- 25 :: rat) * 100\<rfloor>"
    "\<forall>c\<in>set (customers (two_pending_orders True)). c_id c = 1 \<longrightarrow>
           - decimal_max \<le> current_balance c - \<lfloor>(- 25 :: rat) * 100\<rfloor> \<and>
           current_balance c - \<lfloor>(- 25 :: rat) * 100\<rfloor> \<le> decimal_max"
    by (simp_all add: has_customer_def hundredths_def decimal_max_def two_pending_orders_rows)
  from h post_payments_negative_amount
    [of "\<lparr>pay_customer_id = Some 1, pay_amount = Some (- 25), pay_note = None\<rparr>" 1
        "two_pending_orders True" "- 25" 2]
  show ?thesis
    by (auto simp: two_pending_orders_rows decimal_max_def)
qed

text \<open>
  C4. The created payment is read back after the commit, inside the \<open>try\<close> block. When
  that query is rejected, the \<open>catch\<close> block answers 500 and its \<open>rollback\<close> finds no
  open transaction: the payment of 100.00 stays recorded and the balance stays lowered
  from 150.00 to 50.00, under an answer that reports a failure.
\<close>

theorem post_payments_read_back_fault:
  "fst (post_payments (\<lambda>i. i = 5) 2
          \<lparr>pay_customer_id = Some 1, pay_amount = Some 100, pay_note = None\<rparr>
          (two_pending_orders strict))
     = Inl (QueryFailed StoreFault) \<and>
   payments (two_pending_orders strict) = [] \<and>
   balance_of 1 (two_pending_orders strict) = Some 15000 \<and>
   payments (snd (post_payments (\<lambda>i. i = 5) 2
          \<lparr>pay_customer_id = Some 1, pay_amount = Some 100, pay_note = None\<rparr>
          (two_pending_orders strict)))
     = [\<lparr>p_id = 1, p_customer_id = 1, amount = 10000, payment_date = 2, p_note = None\<rparr>] \<and>
   balance_of 1 (snd (post_payments (\<lambda>i. i = 5) 2
          \<lparr>pay_customer_id = Some 1, pay_amount = Some 100, pay_note = None\<rparr>
          (two_pending_orders strict)))
     = Some 5000"
  by (simp add: payment_eval two_pending_orders_rows)

subsection \<open>Batches of orders\<close>

lemma await_Inr:
  "await m f s = (Inr y, s') \<longleftrightarrow> (\<exists>x s1. m s = (Inr x, s1) \<and> f x s1 = (Inr y, s'))"
  by (auto simp: await_def split: prod.splits sum.splits)

lemma await_Inl:
  "await m f s = (Inl e, s') \<longleftrightarrow>
     m s = (Inl e, s') \<or> (\<exists>x s1. m s = (Inr x, s1) \<and> f x s1 = (Inl e, s'))"
  by (auto simp: await_def split: prod.splits sum.splits)

lemma query_Inr:
  "query flt q s = (Inr x, s') \<longleftrightarrow>
     \<not> flt (issued s) \<and> (\<exists>d. q (store s) = Inr (x, d) \<and> s' = s\<lparr>issued := Suc (issued s), store := d\<rparr>)"
  by (auto simp: query_def split: sum.splits)

lemma query_Inl:
  "query flt q s = (Inl e, s') \<longleftrightarrow>
     s' = s\<lparr>issued := Suc (issued s)\<rparr> \<and>
     (flt (issued s) \<and> e = StoreFault \<or> \<not> flt (issued s) \<and> q (store s) = Inl e)"
  by (auto simp: query_def split: sum.splits)

lemma insert_order_Inr:
  "insert_order now cid qty up tp grp d = Inr (i, d1) \<longleftrightarrow>
     (\<exists>c q u t k q' u' t'. cid = Some c \<and> qty = Some q \<and> up = Some u \<and> tp = Some t \<and>
        to_int (strict_mode d) c = Inr k \<and> to_int (strict_mode d) q = Inr q' \<and>
        to_decimal (strict_mode d) u = Inr u' \<and> to_decimal (strict_mode d) t = Inr t' \<and>
        0 \<le> k \<and> has_customer (nat k) d \<and> i = orders_auto_increment d \<and>
        d1 = d\<lparr>orders := orders d @
                         [\<lparr>o_id = orders_auto_increment d, o_customer_id = nat k, quantity = q',
                           unit_price = u', total_price = t', status = Pending,
                           order_date = now, order_group_id = grp\<rparr>],
                      orders_auto_increment := Suc (orders_auto_increment d)\<rparr>)"
  by (auto simp: insert_order_def and_then_Inr split: option.splits)

lemma add_to_balance_Inr:
  assumes "add_to_balance delta cid d = Inr (u, d2)"
  shows "map c_id (customers d2) = map c_id (customers d)"
    and "orders d2 = orders d" and "payments d2 = payments d"
    and "customers_auto_increment d2 = customers_auto_increment d"
    and "orders_auto_increment d2 = orders_auto_increment d"
    and "strict_mode d2 = strict_mode d"
    and "\<And>t c. delta = Some t \<Longrightarrow> cid = Some c \<Longrightarrow>
           \<exists>cs. set_balances (strict_mode d) c (\<lambda>b. b + t) (customers d) = Inr cs \<and>
                d2 = d\<lparr>customers := cs\<rparr>"
proof -
  have m: "map c_id (map (\<lambda>c. if P c then c\<lparr>current_balance := 0\<rparr> else c) cs) = map c_id cs"
    for P and cs :: "customer list"
    by (rule map_ids_cond) simp
  from assms show "map c_id (customers d2) = map c_id (customers d)"
    by (auto simp: add_to_balance_def and_then_Inr m split: option.splits if_splits
        dest: set_balances_ids simp del: map_map)
  from assms show "orders d2 = orders d" "payments d2 = payments d"
    "customers_auto_increment d2 = customers_auto_increment d"
    "orders_auto_increment d2 = orders_auto_increment d"
    "strict_mode d2 = strict_mode d"
    by (auto simp: add_to_balance_def and_then_Inr split: option.splits if_splits)
  fix t c assume "delta = Some t" "cid = Some c"
  with assms show "\<exists>cs. set_balances (strict_mode d) c (\<lambda>b. b + t) (customers d) = Inr cs \<and>
                d2 = d\<lparr>customers := cs\<rparr>"
    by (auto simp: add_to_balance_def and_then_Inr)
qed

lemma order_total_Cons:
  "order_total k (r # rows) = (if o_customer_id r = k then total_price r else 0) + order_total k rows"
  by (simp add: order_total_def)

lemma order_total_Nil: "order_total k [] = 0"
  by (simp add: order_total_def)


lemma to_int_whole:
  assumes "whole c" and "to_int True c = Inr k"
  shows "c = of_int k"
proof -
  from assms(1) obtain n where n: "c = of_int n" by (rule wholeE)
  with assms(2) show ?thesis
    by (auto simp: to_int_def into_range_def split: if_splits)
qed

lemma to_decimal_hundredths:
  assumes "hundredths t" and "to_decimal True (b + t) = Inr v" and "b * 100 = of_int n"
  shows "\<exists>t'. t * 100 = of_int t' \<and> v = n + t'"
proof -
  from assms(1) obtain t' where t': "t * 100 = of_int t'" by (rule hundredthsE)
  with assms(3) have "(b + t) * 100 = of_int (n + t')"
    by (simp add: algebra_simps)
  then have "round_half_away ((b + t) * 100) = n + t'"
    using round_half_away_of_int[of "n + t'"] by simp
  with assms(2) t' show ?thesis
    by (auto simp: to_decimal_def into_range_def split: if_splits)
qed

lemma hundredths_unique: "t * 100 = of_int a \<Longrightarrow> t * 100 = (of_int b :: rat) \<Longrightarrow> a = b"
  by simp

text \<open>
  In strict mode, an accepted update by a whole id and an amount of whole hundredths
  adds these hundredths to the balance of the customer with the id.
\<close>

lemma set_balances_plain:
  assumes "set_balances True (of_int k) (\<lambda>b. b + t) cs = Inr cs'" and "0 \<le> k"
    and "t * 100 = of_int t'"
  shows "cs' = map (\<lambda>c. if c_id c = nat k then c\<lparr>current_balance := current_balance c + t'\<rparr> else c) cs"
proof -
  note sb = set_balances_Inr[OF assms(1)]
  have e: "(of_nat (c_id c) = (of_int k :: rat)) = (c_id c = nat k)" for c
    using assms(2) by (metis nat_int of_int_of_nat_eq of_int_eq_iff int_nat_eq)
  have h: "hundredths t"
    using assms(3) by (simp add: hundredths_def)
  have "new_balance True (\<lambda>b. b + t) c = current_balance c + t'"
    if "c \<in> set cs" "c_id c = nat k" for c
  proof -
    from sb that have "to_decimal True (decimal_value (current_balance c) + t) =
        Inr (new_balance True (\<lambda>b. b + t) c)" by (simp add: e)
    from to_decimal_hundredths[OF h this, of "current_balance c"] obtain t'' where
      "t * 100 = of_int t''" "new_balance True (\<lambda>b. b + t) c = current_balance c + t''"
      by (auto simp: decimal_value_def)
    with assms(3) show ?thesis by simp
  qed
  with sb show ?thesis by (auto simp: e)
qed

lemma batch_statements_Inr:
  "batch_statements now rows d = Inr d' \<Longrightarrow>
     \<exists>new. length new = length rows \<and>
       orders d' = orders d @ new \<and>
       list_all (\<lambda>r. status r = Pending \<and> has_customer (o_customer_id r) d) new \<and>
       map o_id new = [orders_auto_increment d ..< orders_auto_increment d + length rows] \<and>
       payments d' = payments d \<and>
       customers_auto_increment d' = customers_auto_increment d \<and>
       strict_mode d' = strict_mode d \<and>
       map c_id (customers d') = map c_id (customers d) \<and>
       (strict_mode d \<and> list_all plain_row rows \<longrightarrow>
          customers d' =
            map (\<lambda>c. c\<lparr>current_balance := current_balance c + order_total (c_id c) new\<rparr>)
              (customers d))"
proof (induction rows arbitrary: d)
  case Nil
  then show ?case by (simp add: order_total_Nil)
next
  case (Cons row rows)
  from Cons.prems obtain i d1 u d2 where
    ins: "insert_order now (row_customer_id row) (row_quantity row) (row_unit_price row)
            (row_total_price row) (or_null (row_order_group_id row)) d = Inr (i, d1)"
    and upd: "add_to_balance (row_total_price row) (row_customer_id row) d1 = Inr (u, d2)"
    and rest: "batch_statements now rows d2 = Inr d'"
    by (auto simp: and_then_Inr)
  from ins obtain c q up t k q' u' t' where
    row: "row_customer_id row = Some c" "row_total_price row = Some t"
    and conv: "to_int (strict_mode d) c = Inr k" "to_decimal (strict_mode d) t = Inr t'" "0 \<le> k"
    and k: "has_customer (nat k) d"
    and d1: "d1 = d\<lparr>orders := orders d @
                         [\<lparr>o_id = orders_auto_increment d, o_customer_id = nat k, quantity = q',
                           unit_price = u', total_price = t', status = Pending,
                           order_date = now, order_group_id = or_null (row_order_group_id row)\<rparr>],
                      orders_auto_increment := Suc (orders_auto_increment d)\<rparr>"
    unfolding insert_order_Inr by blast
  define r where "r = \<lparr>o_id = orders_auto_increment d, o_customer_id = nat k, quantity = q',
                           unit_price = u', total_price = t', status = Pending,
                           order_date = now, order_group_id = or_null (row_order_group_id row)\<rparr>"
  note a = add_to_balance_Inr[OF upd]
  from a(7)[OF row(2) row(1)] obtain cs where
    cs: "set_balances (strict_mode d) c (\<lambda>b. b + t) (customers d) = Inr cs"
    and d2: "d2 = d1\<lparr>customers := cs\<rparr>"
    by (auto simp: d1)
  have ids2: "map c_id (customers d2) = map c_id (customers d)"
    using a(1) by (simp add: d1)
  note hc = has_customer_ids[OF ids2]
  from Cons.IH[OF rest] obtain new where
    new: "length new = length rows"
      "orders d' = orders d2 @ new"
      "list_all (\<lambda>r. status r = Pending \<and> has_customer (o_customer_id r) d2) new"
      "map o_id new = [orders_auto_increment d2 ..< orders_auto_increment d2 + length rows]"
      "payments d' = payments d2"
      "customers_auto_increment d' = customers_auto_increment d2"
      "strict_mode d' = strict_mode d2"
      "map c_id (customers d') = map c_id (customers d2)"
      "strict_mode d2 \<and> list_all plain_row rows \<longrightarrow>
          customers d' =
            map (\<lambda>c. c\<lparr>current_balance := current_balance c + order_total (c_id c) new\<rparr>)
              (customers d2)"
    by blast
  have "length (r # new) = length (row # rows)" using new(1) by simp
  moreover have "orders d' = orders d @ (r # new)"
    using new(2) a(2) by (simp add: d1 r_def)
  moreover have "list_all (\<lambda>r. status r = Pending \<and> has_customer (o_customer_id r) d) (r # new)"
    using new(3) k by (simp add: hc r_def)
  moreover have "map o_id (r # new) =
      [orders_auto_increment d ..< orders_auto_increment d + length (row # rows)]"
  proof -
    have u: "[orders_auto_increment d ..< orders_auto_increment d + length (row # rows)] =
        orders_auto_increment d #
          [Suc (orders_auto_increment d) ..< Suc (orders_auto_increment d) + length rows]"
      using upt_conv_Cons[of "orders_auto_increment d"
          "orders_auto_increment d + length (row # rows)"]
      by (simp del: upt_Suc)
    have o2: "orders_auto_increment d2 = Suc (orders_auto_increment d)"
      using a(5) by (simp add: d1)
    have "o_id r = orders_auto_increment d" by (simp add: r_def)
    then show ?thesis
      unfolding u using new(4) by (simp only: list.simps(9) o2)
  qed
  moreover have "payments d' = payments d"
    using new(5) a(3) by (simp add: d1)
  moreover have "customers_auto_increment d' = customers_auto_increment d"
    "strict_mode d' = strict_mode d"
    using new(6,7) a(4,6) by (simp_all add: d1)
  moreover have "map c_id (customers d') = map c_id (customers d)"
    using new(8) ids2 by simp
  moreover have "customers d' =
            map (\<lambda>c. c\<lparr>current_balance := current_balance c + order_total (c_id c) (r # new)\<rparr>)
              (customers d)"
    if s: "strict_mode d" and p: "list_all plain_row (row # rows)"
  proof -
    from p row have w: "whole c" and h: "hundredths t" and ps: "list_all plain_row rows"
      by simp_all
    from to_int_whole[OF w] conv(1) s have c: "c = of_int k" by simp
    from h obtain n where n: "t * 100 = of_int n" by (rule hundredthsE)
    from conv(2) s n have t': "t' = n"
      using round_half_away_of_int[of n] to_decimal_value[of True t t'] by simp
    from set_balances_plain[OF _ conv(3) n] cs s c
    have cs': "cs = map (\<lambda>c. if c_id c = nat k
        then c\<lparr>current_balance := current_balance c + n\<rparr> else c) (customers d)"
      by simp
    from new(9) ps s a(6) have "customers d' =
        map (\<lambda>c. c\<lparr>current_balance := current_balance c + order_total (c_id c) new\<rparr>) cs"
      by (simp add: d2 d1)
    then show ?thesis
      unfolding cs' by (simp add: order_total_Cons r_def t')
  qed
  ultimately show ?case by blast
qed

lemma query_result:
  assumes "query flt q s = (r, s')"
  shows "issued s' = Suc (issued s)" and "snapshot s' = snapshot s"
    and "r = (if flt (issued s) then Inl StoreFault
              else case q (store s) of Inl e \<Rightarrow> Inl e | Inr (x, d) \<Rightarrow> Inr x)"
    and "store s' = (if flt (issued s) then store s
              else case q (store s) of Inl e \<Rightarrow> store s | Inr (x, d) \<Rightarrow> d)"
  using assms by (auto simp: query_def split: sum.splits if_splits)

text \<open>
  The loop succeeds exactly when the store rejects none of its statements and each
  statement is accepted on the rows that the statements before it have left.
\<close>

lemma insert_orders_Inr:
  "insert_orders flt now rows acc s = (Inr ids, s') \<Longrightarrow>
     (\<forall>i<2 * length rows. \<not> flt (issued s + i)) \<and>
     batch_statements now rows (store s) = Inr (store s') \<and>
     snapshot s' = snapshot s \<and> issued s' = issued s + 2 * length rows \<and>
     ids = acc @ [orders_auto_increment (store s) ..< orders_auto_increment (store s) + length rows]"
proof (induction rows arbitrary: acc s)
  case Nil
  then show ?case by (simp add: return_def)
next
  case (Cons row rows)
  let ?ins = "insert_order now (row_customer_id row) (row_quantity row) (row_unit_price row)
                (row_total_price row) (or_null (row_order_group_id row))"
  let ?upd = "add_to_balance (row_total_price row) (row_customer_id row)"
  from Cons.prems have "\<exists>i d1 u d2 s2. \<not> flt (issued s) \<and> \<not> flt (Suc (issued s)) \<and>
      ?ins (store s) = Inr (i, d1) \<and> ?upd d1 = Inr (u, d2) \<and>
      s2 = s\<lparr>issued := Suc (Suc (issued s)), store := d2\<rparr> \<and>
      insert_orders flt now rows (acc @ [i]) s2 = (Inr ids, s')"
    by (simp add: await_Inr query_Inr) force
  then obtain i d1 u d2 s2 where
    f: "\<not> flt (issued s)" "\<not> flt (Suc (issued s))"
    and ins: "?ins (store s) = Inr (i, d1)" and upd: "?upd d1 = Inr (u, d2)"
    and s2: "s2 = s\<lparr>issued := Suc (Suc (issued s)), store := d2\<rparr>"
    and rest: "insert_orders flt now rows (acc @ [i]) s2 = (Inr ids, s')"
    by blast
  from ins have i: "i = orders_auto_increment (store s)"
    and o1: "orders_auto_increment d1 = Suc (orders_auto_increment (store s))"
    unfolding insert_order_Inr by auto
  from add_to_balance_Inr(5)[OF upd] o1
  have o2: "orders_auto_increment d2 = Suc (orders_auto_increment (store s))" by simp
  from Cons.IH[OF rest] have ih:
    "\<forall>i<2 * length rows. \<not> flt (issued s2 + i)"
    "batch_statements now rows (store s2) = Inr (store s')"
    "snapshot s' = snapshot s2" "issued s' = issued s2 + 2 * length rows"
    "ids = (acc @ [i]) @
       [orders_auto_increment (store s2) ..< orders_auto_increment (store s2) + length rows]"
    by blast+
  have "\<not> flt (issued s + j)" if "j < 2 * length (row # rows)" for j
  proof (cases "j < 2")
    case True
    then have "j = 0 \<or> j = 1" by auto
    with f show ?thesis by auto
  next
    case False
    with that have "j - 2 < 2 * length rows" by simp
    with ih(1) have "\<not> flt (issued s2 + (j - 2))" by blast
    moreover from False have "issued s2 + (j - 2) = issued s + j" by (simp add: s2)
    ultimately show ?thesis by simp
  qed
  moreover have "batch_statements now (row # rows) (store s) = Inr (store s')"
    using ins upd ih(2) by (simp add: and_then_def s2)
  moreover have "snapshot s' = snapshot s" "issued s' = issued s + 2 * length (row # rows)"
    using ih(3,4) by (simp_all add: s2)
  moreover have "ids = acc @ [orders_auto_increment (store s) ..<
      orders_auto_increment (store s) + length (row # rows)]"
  proof -
    have "[orders_auto_increment (store s) ..< orders_auto_increment (store s) + length (row # rows)] =
        orders_auto_increment (store s) #
          [Suc (orders_auto_increment (store s)) ..<
             Suc (orders_auto_increment (store s)) + length rows]"
      using upt_conv_Cons[of "orders_auto_increment (store s)"
          "orders_auto_increment (store s) + length (row # rows)"]
      by (simp del: upt_Suc)
    with ih(5) i o2 show ?thesis by (simp add: s2)
  qed
  ultimately show ?case by blast
qed

lemma insert_orders_Inl:
  "insert_orders flt now rows acc s = (Inl e, s') \<Longrightarrow>
     snapshot s' = snapshot s \<and>
     ((\<exists>i<2 * length rows. flt (issued s + i)) \<or>
      (\<exists>e'. batch_statements now rows (store s) = Inl e'))"
proof (induction rows arbitrary: acc s)
  case Nil
  then show ?case by (simp add: return_def)
next
  case (Cons row rows)
  let ?ins = "insert_order now (row_customer_id row) (row_quantity row) (row_unit_price row)
                (row_total_price row) (or_null (row_order_group_id row))"
  let ?upd = "add_to_balance (row_total_price row) (row_customer_id row)"
  have two: "(0::nat) < 2 * length (row # rows)" "(1::nat) < 2 * length (row # rows)"
    by simp_all
  obtain r1 s1 where q1: "query flt ?ins s = (r1, s1)" by (cases "query flt ?ins s")
  show ?case
  proof (cases r1)
    case (Inl e1)
    with q1 have "query flt ?ins s = (Inl e1, s1)" by simp
    then have s1: "s1 = s\<lparr>issued := Suc (issued s)\<rparr>"
      and c: "flt (issued s) \<or> ?ins (store s) = Inl e1"
      unfolding query_Inl by blast+
    from Cons.prems q1 Inl have s': "s' = s1" by (simp add: await_def)
    from c have "(\<exists>i<2 * length (row # rows). flt (issued s + i)) \<or>
        (\<exists>e'. batch_statements now (row # rows) (store s) = Inl e')"
    proof
      assume "flt (issued s)"
      then have "flt (issued s + 0)" by simp
      with two(1) show ?thesis by blast
    next
      assume "?ins (store s) = Inl e1"
      then have "batch_statements now (row # rows) (store s) = Inl e1"
        by (simp add: and_then_def)
      then show ?thesis by blast
    qed
    with s' s1 show ?thesis by simp
  next
    case (Inr i)
    with q1 have "query flt ?ins s = (Inr i, s1)" by simp
    then obtain d1 where d1: "?ins (store s) = Inr (i, d1)"
      and s1: "s1 = s\<lparr>issued := Suc (issued s), store := d1\<rparr>"
      unfolding query_Inr by blast
    obtain r2 s2 where q2: "query flt ?upd s1 = (r2, s2)" by (cases "query flt ?upd s1")
    show ?thesis
    proof (cases r2)
      case (Inl e2)
      with q2 have "query flt ?upd s1 = (Inl e2, s2)" by simp
      then have s2: "s2 = s1\<lparr>issued := Suc (issued s1)\<rparr>"
        and c: "flt (issued s1) \<or> ?upd (store s1) = Inl e2"
        unfolding query_Inl by blast+
      from Cons.prems q1 q2 Inl \<open>r1 = Inr i\<close> have s': "s' = s2" by (simp add: await_def)
      from c have "(\<exists>i<2 * length (row # rows). flt (issued s + i)) \<or>
          (\<exists>e'. batch_statements now (row # rows) (store s) = Inl e')"
      proof
        assume "flt (issued s1)"
        then have "flt (issued s + 1)" by (simp add: s1)
        with two(2) show ?thesis by blast
      next
        assume "?upd (store s1) = Inl e2"
        with d1 have "batch_statements now (row # rows) (store s) = Inl e2"
          by (simp add: and_then_def s1)
        then show ?thesis by blast
      qed
      with s' s2 s1 show ?thesis by simp
    next
      case (Inr u)
      with q2 have "query flt ?upd s1 = (Inr u, s2)" by simp
      then obtain d2 where d2: "?upd (store s1) = Inr (u, d2)"
        and s2: "s2 = s1\<lparr>issued := Suc (issued s1), store := d2\<rparr>"
        unfolding query_Inr by blast
      from Cons.prems q1 q2 \<open>r1 = Inr i\<close> \<open>r2 = Inr u\<close>
      have "insert_orders flt now rows (acc @ [i]) s2 = (Inl e, s')" by (simp add: await_def)
      from Cons.IH[OF this] have ih: "snapshot s' = snapshot s2"
        "(\<exists>i<2 * length rows. flt (issued s2 + i)) \<or>
         (\<exists>e'. batch_statements now rows (store s2) = Inl e')"
        by blast+
      have b: "batch_statements now (row # rows) (store s) = batch_statements now rows (store s2)"
        using d1 d2 by (simp add: and_then_def s1 s2)
      from ih(2) have "(\<exists>i<2 * length (row # rows). flt (issued s + i)) \<or>
          (\<exists>e'. batch_statements now (row # rows) (store s) = Inl e')"
      proof
        assume "\<exists>i<2 * length rows. flt (issued s2 + i)"
        then obtain j where j: "j < 2 * length rows" "flt (issued s2 + j)" by blast
        have "issued s2 + j = issued s + (j + 2)"
          by (simp add: s1 s2)
        with j(2) have "flt (issued s + (j + 2))" by simp
        moreover from j(1) have "j + 2 < 2 * length (row # rows)" by simp
        ultimately show ?thesis by blast
      next
        assume "\<exists>e'. batch_statements now rows (store s2) = Inl e'"
        then show ?thesis unfolding b by blast
      qed
      with ih(1) show ?thesis by (simp add: s1 s2)
    qed
  qed
qed

lemma insert_order_frame:
  "insert_order now cid qty up tp grp d = Inr (i, d1) \<Longrightarrow>
     customers_auto_increment d1 = customers_auto_increment d \<and> strict_mode d1 = strict_mode d"
  unfolding insert_order_Inr by auto

lemma insert_orders_frame:
  "insert_orders flt now rows acc s = (r, s') \<Longrightarrow>
     customers_auto_increment (store s') = customers_auto_increment (store s) \<and>
     strict_mode (store s') = strict_mode (store s)"
proof (induction rows arbitrary: acc s)
  case Nil
  then show ?case by (simp add: return_def)
next
  case (Cons row rows)
  let ?ins = "insert_order now (row_customer_id row) (row_quantity row) (row_unit_price row)
                (row_total_price row) (or_null (row_order_group_id row))"
  let ?upd = "add_to_balance (row_total_price row) (row_customer_id row)"
  obtain r1 s1 where q1: "query flt ?ins s = (r1, s1)" by (cases "query flt ?ins s")
  have c1: "customers_auto_increment (store s1) = customers_auto_increment (store s) \<and>
      strict_mode (store s1) = strict_mode (store s)"
    using query_result(4)[OF q1] insert_order_frame[of now _ _ _ _ _ "store s"]
    by (auto split: if_splits sum.splits)
  show ?case
  proof (cases r1)
    case (Inl e)
    with Cons.prems q1 c1 show ?thesis by (simp add: await_def)
  next
    case (Inr i)
    obtain r2 s2 where q2: "query flt ?upd s1 = (r2, s2)" by (cases "query flt ?upd s1")
    have c2: "customers_auto_increment (store s2) = customers_auto_increment (store s1) \<and>
        strict_mode (store s2) = strict_mode (store s1)"
      using query_result(4)[OF q2] add_to_balance_Inr(4,6)[of _ _ "store s1"]
      by (auto split: if_splits sum.splits)
    show ?thesis
    proof (cases r2)
      case (Inl e)
      with Cons.prems q1 q2 c1 c2 \<open>r1 = Inr i\<close> show ?thesis by (simp add: await_def)
    next
      case (Inr u)
      with Cons.prems q1 q2 \<open>r1 = Inr i\<close>
      have "insert_orders flt now rows (acc @ [i]) s2 = (r, s')" by (simp add: await_def)
      from Cons.IH[OF this] c1 c2 show ?thesis by simp
    qed
  qed
qed

lemma post_orders_outcome:
  assumes ne: "rows \<noteq> []" and p: "post_orders flt now (Array rows) d = (r, d')"
  shows "if (\<forall>i\<le>2 * length rows + 1. \<not> flt i) \<and> (\<exists>d''. batch_statements now rows d = Inr d'')
         then r = Inr (length rows,
                       [orders_auto_increment d ..< orders_auto_increment d + length rows]) \<and>
              batch_statements now rows d = Inr d'
         else (\<exists>e. r = Inl (QueryFailed e)) \<and> same_rows d d' \<and>
              customers_auto_increment d' = customers_auto_increment d \<and>
              strict_mode d' = strict_mode d"
proof (cases "flt 0")
  case True
  then have "try_orders flt now rows (connect d) =
      (Inl StoreFault, \<lparr>issued = Suc 0, store = d, snapshot = None\<rparr>)"
    by (simp add: try_orders_def await_def beginTransaction_def connect_def)
  with p ne have "r = Inl (QueryFailed StoreFault)" "d' = d"
    by (simp_all add: post_orders_def rollback_def)
  moreover from True have "\<not> (\<forall>i\<le>2 * length rows + 1. \<not> flt i)" by blast
  ultimately show ?thesis by (simp add: same_rows_def)
next
  case False
  let ?s1 = "\<lparr>issued = Suc 0, store = d, snapshot = Some d\<rparr>"
  let ?n = "length rows"
  obtain r2 s2 where l: "insert_orders flt now rows [] ?s1 = (r2, s2)"
    by (cases "insert_orders flt now rows [] ?s1")
  from insert_orders_frame[OF l]
  have fr: "customers_auto_increment (store s2) = customers_auto_increment d"
    "strict_mode (store s2) = strict_mode d" by simp_all
  show ?thesis
  proof (cases r2)
    case (Inl e)
    with l False have "try_orders flt now rows (connect d) = (Inl e, s2)"
      by (simp add: try_orders_def await_def beginTransaction_def connect_def)
    with p ne have r: "r = Inl (QueryFailed e)" and d': "d' = store (rollback s2)"
      by (simp_all add: post_orders_def)
    from l Inl insert_orders_Inl[of flt now rows "[]" ?s1 e s2]
    have sn: "snapshot s2 = Some d"
      and c: "(\<exists>i<2 * ?n. flt (Suc 0 + i)) \<or> (\<exists>e'. batch_statements now rows d = Inl e')"
      by simp_all
    have "\<not> ((\<forall>i\<le>2 * ?n + 1. \<not> flt i) \<and> (\<exists>d''. batch_statements now rows d = Inr d''))"
    proof
      assume a: "(\<forall>i\<le>2 * ?n + 1. \<not> flt i) \<and> (\<exists>d''. batch_statements now rows d = Inr d'')"
      from c show False
      proof
        assume "\<exists>i<2 * ?n. flt (Suc 0 + i)"
        then obtain i where "i < 2 * ?n" "flt (Suc 0 + i)" by blast
        moreover from this have "Suc 0 + i \<le> 2 * ?n + 1" by simp
        ultimately show False using a by blast
      next
        assume "\<exists>e'. batch_statements now rows d = Inl e'"
        with a show False by auto
      qed
    qed
    moreover have "same_rows d d'" "customers_auto_increment d' = customers_auto_increment d"
      "strict_mode d' = strict_mode d"
      using fr by (simp_all add: d' rollback_def sn same_rows_def)
    ultimately show ?thesis using r by simp
  next
    case (Inr ids)
    from l Inr insert_orders_Inr[of flt now rows "[]" ?s1 ids s2]
    have nf: "\<forall>i<2 * ?n. \<not> flt (Suc 0 + i)"
      and b: "batch_statements now rows d = Inr (store s2)"
      and sn: "snapshot s2 = Some d" and iss: "issued s2 = Suc 0 + 2 * ?n"
      and ids: "ids = [orders_auto_increment d ..< orders_auto_increment d + ?n]"
      by simp_all
    show ?thesis
    proof (cases "flt (2 * ?n + 1)")
      case True
      with l Inr False iss have "try_orders flt now rows (connect d) =
          (Inl StoreFault, s2\<lparr>issued := Suc (issued s2)\<rparr>)"
        by (simp add: try_orders_def await_def beginTransaction_def connect_def commit_def)
      with p ne have "r = Inl (QueryFailed StoreFault)"
        "d' = store (rollback (s2\<lparr>issued := Suc (issued s2)\<rparr>))"
        by (simp_all add: post_orders_def)
      moreover from True have "\<not> (\<forall>i\<le>2 * ?n + 1. \<not> flt i)" by blast
      ultimately show ?thesis
        using fr by (simp add: rollback_def sn same_rows_def)
    next
      case c: False
      with l Inr False iss have "try_orders flt now rows (connect d) =
          (Inr ids, s2\<lparr>issued := Suc (issued s2), snapshot := None\<rparr>)"
        by (simp add: try_orders_def await_def beginTransaction_def connect_def commit_def
            return_def)
      with p ne have r: "r = Inr (length ids, ids)" and d': "d' = store s2"
        by (simp_all add: post_orders_def)
      have "\<not> flt i" if "i \<le> 2 * ?n + 1" for i
      proof (cases "i = 0 \<or> i = 2 * ?n + 1")
        case True
        with False c show ?thesis by auto
      next
        case False
        with that have "i - 1 < 2 * ?n" "Suc 0 + (i - 1) = i" by linarith+
        with nf show ?thesis by metis
      qed
      with b r d' ids show ?thesis by auto
    qed
  qed
qed

lemma post_orders_Inl:
  assumes "post_orders flt now body d = (Inl e, d')"
  shows "same_rows d d' \<and> customers_auto_increment d' = customers_auto_increment d \<and>
         strict_mode d' = strict_mode d"
proof (cases body)
  case NotAnArray
  with assms show ?thesis by (simp add: post_orders_def same_rows_def)
next
  case (Array rows)
  show ?thesis
  proof (cases "rows = []")
    case True
    with assms Array show ?thesis by (simp add: post_orders_def same_rows_def)
  next
    case False
    from post_orders_outcome[OF False, of flt now d "Inl e" d'] assms Array
    show ?thesis by (simp split: if_splits)
  qed
qed

lemma post_orders_Inr:
  assumes "post_orders flt now body d = (Inr x, d')"
  shows "\<exists>rows. body = Array rows \<and> rows \<noteq> [] \<and> batch_statements now rows d = Inr d' \<and>
           x = (length rows, [orders_auto_increment d ..< orders_auto_increment d + length rows])"
proof (cases body)
  case NotAnArray
  with assms show ?thesis by (simp add: post_orders_def)
next
  case (Array rows)
  show ?thesis
  proof (cases "rows = []")
    case True
    with assms Array show ?thesis by (simp add: post_orders_def)
  next
    case False
    from post_orders_outcome[OF False, of flt now d "Inr x" d'] assms Array False
    show ?thesis by (simp split: if_splits)
  qed
qed

lemma to_int_of_nat: "k \<le> 2147483647 \<Longrightarrow> to_int strict (of_nat k) = Inr (int k)"
  using round_half_away_of_int[of "int k"] by (simp add: to_int_def into_range_def)

lemma batch_statements_unknown:
  assumes "\<exists>row\<in>set rows. \<exists>k. row_customer_id row = Some (of_nat k) \<and> k \<le> 2147483647 \<and>
             \<not> has_customer k d"
  shows "\<exists>e. batch_statements now rows d = Inl e"
  using assms
proof (induction rows arbitrary: d)
  case Nil
  then show ?case by simp
next
  case (Cons row rows)
  let ?ins = "insert_order now (row_customer_id row) (row_quantity row) (row_unit_price row)
                (row_total_price row) (or_null (row_order_group_id row))"
  let ?upd = "add_to_balance (row_total_price row) (row_customer_id row)"
  show ?case
  proof (cases "?ins d")
    case (Inl e)
    then show ?thesis by (simp add: and_then_def)
  next
    case (Inr a)
    obtain i d1 where a: "a = (i, d1)" by (cases a)
    with Inr have ins: "?ins d = Inr (i, d1)" by simp
    then obtain c k' where c: "row_customer_id row = Some c" "to_int (strict_mode d) c = Inr k'"
      "0 \<le> k'" "has_customer (nat k') d"
      and h1: "map c_id (customers d1) = map c_id (customers d)"
      unfolding insert_order_Inr by auto
    have head: "\<not> (\<exists>k. row_customer_id row = Some (of_nat k) \<and> k \<le> 2147483647 \<and> \<not> has_customer k d)"
    proof
      assume "\<exists>k. row_customer_id row = Some (of_nat k) \<and> k \<le> 2147483647 \<and> \<not> has_customer k d"
      then obtain k where k: "row_customer_id row = Some (of_nat k)" "k \<le> 2147483647"
        "\<not> has_customer k d" by blast
      from k(1) c(1) have "c = of_nat k" by simp
      with to_int_of_nat[OF k(2), of "strict_mode d"] c(2) have "k' = int k" by simp
      with c(4) k(3) show False by simp
    qed
    show ?thesis
    proof (cases "?upd d1")
      case (Inl e)
      with ins show ?thesis by (simp add: and_then_def)
    next
      case (Inr b)
      obtain u d2 where b: "b = (u, d2)" by (cases b)
      with Inr have upd: "?upd d1 = Inr (u, d2)" by simp
      from add_to_balance_Inr(1)[OF upd] h1
      have "map c_id (customers d2) = map c_id (customers d)" by simp
      note hc = has_customer_ids[OF this]
      from Cons.prems head
      have "\<exists>row\<in>set rows. \<exists>k. row_customer_id row = Some (of_nat k) \<and> k \<le> 2147483647 \<and>
             \<not> has_customer k d2"
        by (auto simp: hc)
      from Cons.IH[OF this] ins upd show ?thesis by (simp add: and_then_def)
    qed
  qed
qed

text \<open>
  C3. A batch that is not empty is answered with success exactly when the store rejects
  none of its calls and accepts every statement of the batch, one after the other;
  then the store holds what these statements leave. In every other case, whichever
  insert or balance update failed, the answer is an error and the rows of the three
  tables are those of before the call: no order is inserted and no balance is changed,
  also for the entries that came before the failing one. Any error answer of the
  handler leaves the rows as they were. A batch with an entry whose customer does not
  exist has a statement that the store refuses, and is answered with an error.
\<close>

theorem post_orders_atomic:
  "(rows \<noteq> [] \<and> post_orders flt now (Array rows) d = (r, d') \<longrightarrow>
      (if (\<forall>i\<le>2 * length rows + 1. \<not> flt i) \<and> (\<exists>d''. batch_statements now rows d = Inr d'')
       then r = Inr (length rows,
                     [orders_auto_increment d ..< orders_auto_increment d + length rows]) \<and>
            batch_statements now rows d = Inr d'
       else (\<exists>e. r = Inl (QueryFailed e)) \<and>
            customers d' = customers d \<and> orders d' = orders d \<and> payments d' = payments d)) \<and>
   (post_orders flt now body d = (Inl e, d') \<longrightarrow>
      customers d' = customers d \<and> orders d' = orders d \<and> payments d' = payments d) \<and>
   ((\<exists>row\<in>set rows. \<exists>k. row_customer_id row = Some (of_nat k) \<and> k \<le> 2147483647 \<and>
        \<not> has_customer k d) \<longrightarrow>
      (\<exists>x. batch_statements now rows d = Inl x) \<and>
      (\<exists>x. fst (post_orders flt now (Array rows) d) = Inl x))"
proof -
  have a: "if (\<forall>i\<le>2 * length rows + 1. \<not> flt i) \<and> (\<exists>d''. batch_statements now rows d = Inr d'')
       then r = Inr (length rows,
                     [orders_auto_increment d ..< orders_auto_increment d + length rows]) \<and>
            batch_statements now rows d = Inr d'
       else (\<exists>e. r = Inl (QueryFailed e)) \<and>
            customers d' = customers d \<and> orders d' = orders d \<and> payments d' = payments d"
    if "rows \<noteq> []" "post_orders flt now (Array rows) d = (r, d')"
    using post_orders_outcome[OF that] by (auto simp: same_rows_def split: if_splits)
  have b: "customers d' = customers d \<and> orders d' = orders d \<and> payments d' = payments d"
    if "post_orders flt now body d = (Inl e, d')"
    using post_orders_Inl[OF that] by (simp add: same_rows_def)
  have c: "(\<exists>x. batch_statements now rows d = Inl x) \<and>
      (\<exists>x. fst (post_orders flt now (Array rows) d) = Inl x)"
    if u: "\<exists>row\<in>set rows. \<exists>k. row_customer_id row = Some (of_nat k) \<and> k \<le> 2147483647 \<and>
        \<not> has_customer k d"
  proof -
    from u have ne: "rows \<noteq> []" by auto
    from batch_statements_unknown[OF u] obtain x where x: "batch_statements now rows d = Inl x"
      by blast
    obtain r0 d0 where p: "post_orders flt now (Array rows) d = (r0, d0)"
      by (cases "post_orders flt now (Array rows) d")
    from post_orders_outcome[OF ne p] x have "\<exists>e. r0 = Inl (QueryFailed e)"
      by simp
    with p x show ?thesis by auto
  qed
  from a b c show ?thesis by blast
qed

lemmas order_eval =
  post_orders_def try_orders_def action_defs insert_order_def add_to_balance_def and_then_def
  to_int_def to_decimal_def into_range_def decimal_max_def decimal_value_def has_customer_def
  or_null_def

theorem post_orders_atomic_witness:
  "post_orders no_faults 3
     (Array [\<lparr>row_customer_id = Some 1, row_quantity = Some 5, row_unit_price = Some 5,
               row_total_price = Some 25, row_order_group_id = None\<rparr>,
             \<lparr>row_customer_id = Some 7, row_quantity = Some 5, row_unit_price = Some 5,
               row_total_price = Some 25, row_order_group_id = None\<rparr>])
     (two_pending_orders True) =
     (Inl (QueryFailed ForeignKeyViolation), (two_pending_orders True)\<lparr>orders_auto_increment := 4\<rparr>) \<and>
   \<not> has_customer 7 (two_pending_orders True) \<and>
   post_orders (\<lambda>i. i = 2) 3
     (Array [\<lparr>row_customer_id = Some 1, row_quantity = Some 5, row_unit_price = Some 5,
               row_total_price = Some 25, row_order_group_id = None\<rparr>])
     (two_pending_orders True) =
     (Inl (QueryFailed StoreFault), (two_pending_orders True)\<lparr>orders_auto_increment := 4\<rparr>) \<and>
   \<not> (\<forall>i\<le>2 * length [\<lparr>row_customer_id = Some (1::rat), row_quantity = Some (5::rat),
               row_unit_price = Some (5::rat), row_total_price = Some (25::rat),
               row_order_group_id = None :: js_string option\<rparr>] + 1. \<not> (\<lambda>i. i = 2) i) \<and>
   customers ((two_pending_orders True)\<lparr>orders_auto_increment := 4\<rparr>) =
     customers (two_pending_orders True) \<and>
   orders ((two_pending_orders True)\<lparr>orders_auto_increment := 4\<rparr>) =
     orders (two_pending_orders True) \<and>
   payments ((two_pending_orders True)\<lparr>orders_auto_increment := 4\<rparr>) =
     payments (two_pending_orders True)"
proof -
  let ?a = "\<lparr>row_customer_id = Some 1, row_quantity = Some 5, row_unit_price = Some 5,
               row_total_price = Some 25, row_order_group_id = None\<rparr>"
  let ?b = "\<lparr>row_customer_id = Some 7, row_quantity = Some 5, row_unit_price = Some 5,
               row_total_price = Some 25, row_order_group_id = None\<rparr>"
  let ?d = "two_pending_orders True"
  let ?d' = "(two_pending_orders True)\<lparr>orders_auto_increment := 4\<rparr>"
  have h1: "post_orders no_faults 3 (Array [?a, ?b]) ?d = (Inl (QueryFailed ForeignKeyViolation), ?d')"
    by (simp add: order_eval no_faults_def two_pending_orders_rows)
  have h2: "post_orders (\<lambda>i. i = 2) 3 (Array [?a]) ?d = (Inl (QueryFailed StoreFault), ?d')"
    by (simp add: order_eval two_pending_orders_rows)
  have u: "\<not> has_customer 7 ?d"
    by (simp add: has_customer_def two_pending_orders_rows)
  from h1 h2 u
    post_orders_atomic [of "[?a, ?b]" no_faults 3 ?d "Inl (QueryFailed ForeignKeyViolation)" ?d'
      "Array [?a, ?b]" "QueryFailed ForeignKeyViolation"]
    post_orders_atomic [of "[?a]" "\<lambda>i. i = 2" 3 ?d "Inl (QueryFailed StoreFault)" ?d'
      "Array [?a]" "QueryFailed StoreFault"]
  show ?thesis by simp
qed

subsection \<open>The status of an order\<close>

lemma batch_statements_orders:
  assumes "batch_statements now rows d = Inr d'"
  shows "\<exists>new. orders d' = orders d @ new \<and> list_all (\<lambda>r. status r = Pending) new"
proof -
  from batch_statements_Inr[OF assms] obtain new where
    "orders d' = orders d @ new"
    "list_all (\<lambda>r. status r = Pending \<and> has_customer (o_customer_id r) d) new"
    by blast
  then have "orders d' = orders d @ new \<and> list_all (\<lambda>r. status r = Pending) new"
    by (simp add: list_all_iff)
  then show ?thesis by blast
qed

lemma handle_orders:
  "orders (handle flt req d) = orders d \<or>
   (\<exists>new. orders (handle flt req d) = orders d @ new \<and> list_all (\<lambda>r. status r = Pending) new) \<or>
   (\<exists>now body x. req = PostPayments now body \<and> pay_customer_id body = Some x \<and>
      in_credit x (handle flt req d) \<and>
      orders (handle flt req d) =
        map (\<lambda>r. if of_nat (o_customer_id r) = x \<and> status r = Pending then r\<lparr>status := Paid\<rparr> else r)
          (orders d))"
proof (cases req)
  case (PostCustomers now body)
  then show ?thesis by (simp add: post_customers_eq)
next
  case (PutCustomer k body)
  then show ?thesis by (simp add: put_customer_eq)
next
  case (DeleteCustomer k)
  then show ?thesis by (simp add: delete_customer_eq)
next
  case (PostOrders now body)
  obtain r d' where p: "post_orders flt now body d = (r, d')"
    by (cases "post_orders flt now body d")
  show ?thesis
  proof (cases r)
    case (Inl e)
    with p post_orders_Inl[of flt now body d e d'] PostOrders show ?thesis
      by (simp add: same_rows_def)
  next
    case (Inr x)
    with p post_orders_Inr[of flt now body d x d'] obtain rows where
      "batch_statements now rows d = Inr d'" by blast
    from batch_statements_orders[OF this] p PostOrders show ?thesis by auto
  qed
next
  case (PostPayments now body)
  obtain r d' where p: "post_payments flt now body d = (r, d')"
    by (cases "post_payments flt now body d")
  have "same_rows d d' \<or>
    (\<exists>x a. pay_customer_id body = Some x \<and> payment_statements now x a (pay_note body) d = Inr d')"
  proof (cases r)
    case (Inl e)
    with p post_payments_Inl[of flt now body d e d'] show ?thesis by blast
  next
    case (Inr x)
    with p post_payments_Inr[of flt now body d x d'] show ?thesis by blast
  qed
  then show ?thesis
  proof
    assume "same_rows d d'"
    with p PostPayments show ?thesis by (simp add: same_rows_def)
  next
    assume "\<exists>x a. pay_customer_id body = Some x \<and>
      payment_statements now x a (pay_note body) d = Inr d'"
    then obtain x a where x: "pay_customer_id body = Some x"
      and ps: "payment_statements now x a (pay_note body) d = Inr d'" by blast
    note os = payment_statements_fields(4)[OF ps]
    show ?thesis
    proof (cases "in_credit x d'")
      case True
      with x os p PostPayments show ?thesis by simp
    next
      case False
      with x os p PostPayments show ?thesis by simp
    qed
  qed
qed

lemma handle_paid:
  assumes "i < length (orders d)" and "status (orders d ! i) = Paid"
  shows "i < length (orders (handle flt req d)) \<and> status (orders (handle flt req d) ! i) = Paid"
  using handle_orders[of flt req d] assms
  by (auto simp: nth_append)

lemma run_paid:
  "i < length (orders d) \<Longrightarrow> status (orders d ! i) = Paid \<Longrightarrow>
     i < length (orders (run reqs d)) \<and> status (orders (run reqs d) ! i) = Paid"
proof (induction reqs arbitrary: d)
  case Nil
  then show ?case by simp
next
  case (Cons a reqs)
  obtain flt req where a: "a = (flt, req)" by (cases a)
  from handle_paid[OF Cons.prems, of flt req] Cons.IH[of "handle flt req d"] a
  show ?case by simp
qed

text \<open>
  C5. A request keeps every order at its place in the table, with its id and its
  customer. An order that is paid stays paid, under one request and under every
  sequence of requests. An order goes from pending to paid only under a payment of its
  own customer, after which that customer's balance is at most 0. An order that a
  request creates is pending.
\<close>

theorem order_status_transitions:
  "length (orders d) \<le> length (orders (handle flt req d)) \<and>
   (\<forall>i<length (orders d).
      o_id (orders (handle flt req d) ! i) = o_id (orders d ! i) \<and>
      o_customer_id (orders (handle flt req d) ! i) = o_customer_id (orders d ! i) \<and>
      (status (orders d ! i) = Paid \<longrightarrow> status (orders (handle flt req d) ! i) = Paid) \<and>
      (status (orders d ! i) = Pending \<and> status (orders (handle flt req d) ! i) = Paid \<longrightarrow>
         (\<exists>now body. req = PostPayments now body \<and>
            pay_customer_id body = Some (of_nat (o_customer_id (orders d ! i))) \<and>
            (\<exists>b. balance_of (of_nat (o_customer_id (orders d ! i))) (handle flt req d) = Some b \<and>
                 b \<le> 0)))) \<and>
   (\<forall>i<length (orders (handle flt req d)).
      length (orders d) \<le> i \<longrightarrow> status (orders (handle flt req d) ! i) = Pending) \<and>
   (\<forall>i<length (orders d). status (orders d ! i) = Paid \<longrightarrow>
      i < length (orders (run reqs d)) \<and> status (orders (run reqs d) ! i) = Paid)"
proof -
  let ?d = "handle flt req d"
  have c: "in_credit x y \<Longrightarrow> \<exists>b. balance_of x y = Some b \<and> b \<le> 0" for x y
    by (simp add: in_credit_iff)
  have a: "length (orders d) \<le> length (orders ?d)"
    using handle_orders[of flt req d] by auto
  have b: "o_id (orders ?d ! i) = o_id (orders d ! i) \<and>
      o_customer_id (orders ?d ! i) = o_customer_id (orders d ! i) \<and>
      (status (orders d ! i) = Paid \<longrightarrow> status (orders ?d ! i) = Paid) \<and>
      (status (orders d ! i) = Pending \<and> status (orders ?d ! i) = Paid \<longrightarrow>
         (\<exists>now body. req = PostPayments now body \<and>
            pay_customer_id body = Some (of_nat (o_customer_id (orders d ! i))) \<and>
            (\<exists>b. balance_of (of_nat (o_customer_id (orders d ! i))) ?d = Some b \<and> b \<le> 0)))"
    if "i < length (orders d)" for i
    using handle_orders[of flt req d] that
    by (elim disjE exE conjE) (auto simp: nth_append dest: c)
  have n: "status (orders ?d ! i) = Pending"
    if "i < length (orders ?d)" "length (orders d) \<le> i" for i
    using handle_orders[of flt req d] that
    by (elim disjE exE conjE) (auto simp: nth_append list_all_length)
  from a b n run_paid[of _ d reqs] show ?thesis by blast
qed

lemma two_pending_orders_paid:
  "handle no_faults (PostPayments 2 \<lparr>pay_customer_id = Some 1, pay_amount = Some 150, pay_note = None\<rparr>)
     (two_pending_orders True) =
     \<lparr>customers = [\<lparr>c_id = 1, c_name = [65, 121, 115, 101], c_phone = None, current_balance = 0,
                     created_at = 0\<rparr>],
      orders = [\<lparr>o_id = 1, o_customer_id = 1, quantity = 20, unit_price = 500,
                  total_price = 10000, status = Paid, order_date = 1, order_group_id = None\<rparr>,
                \<lparr>o_id = 2, o_customer_id = 1, quantity = 10, unit_price = 500,
                  total_price = 5000, status = Paid, order_date = 1, order_group_id = None\<rparr>],
      payments = [\<lparr>p_id = 1, p_customer_id = 1, amount = 15000, payment_date = 2, p_note = None\<rparr>],
      customers_auto_increment = 2, orders_auto_increment = 3, payments_auto_increment = 2,
      strict_mode = True\<rparr>"
  by (simp add: payment_eval no_faults_def two_pending_orders_rows)

theorem order_status_transitions_witness:
  "0 < length (orders (two_pending_orders True)) \<and>
   status (orders (two_pending_orders True) ! 0) = Pending \<and>
   status (orders (handle no_faults
      (PostPayments 2 \<lparr>pay_customer_id = Some 1, pay_amount = Some 150, pay_note = None\<rparr>)
      (two_pending_orders True)) ! 0) = Paid \<and>
   balance_of 1 (handle no_faults
      (PostPayments 2 \<lparr>pay_customer_id = Some 1, pay_amount = Some 150, pay_note = None\<rparr>)
      (two_pending_orders True)) = Some 0 \<and>
   status (orders (run [(no_faults, PostOrders 3 (Array
        [\<lparr>row_customer_id = Some 1, row_quantity = Some 5, row_unit_price = Some 5,
          row_total_price = Some 25, row_order_group_id = None\<rparr>]))]
      (handle no_faults
        (PostPayments 2 \<lparr>pay_customer_id = Some 1, pay_amount = Some 150, pay_note = None\<rparr>)
        (two_pending_orders True))) ! 0) = Paid \<and>
   balance_of 1 (run [(no_faults, PostOrders 3 (Array
        [\<lparr>row_customer_id = Some 1, row_quantity = Some 5, row_unit_price = Some 5,
          row_total_price = Some 25, row_order_group_id = None\<rparr>]))]
      (handle no_faults
        (PostPayments 2 \<lparr>pay_customer_id = Some 1, pay_amount = Some 150, pay_note = None\<rparr>)
        (two_pending_orders True))) = Some 2500"
proof -
  let ?pay = "PostPayments 2 \<lparr>pay_customer_id = Some 1, pay_amount = Some 150, pay_note = None\<rparr>"
  let ?ord = "PostOrders 3 (Array
        [\<lparr>row_customer_id = Some 1, row_quantity = Some 5, row_unit_price = Some 5,
          row_total_price = Some 25, row_order_group_id = None\<rparr>])"
  have b: "balance_of 1 (run [(no_faults, ?ord)] (handle no_faults ?pay (two_pending_orders True))) =
      Some 2500"
    unfolding two_pending_orders_paid
    by (simp add: order_eval no_faults_def balance_of_def first_row_def)
  from order_status_transitions [of "two_pending_orders True" no_faults ?pay "[]"]
    order_status_transitions [of "handle no_faults ?pay (two_pending_orders True)" no_faults ?ord
      "[(no_faults, ?ord)]"]
    b
  show ?thesis
    unfolding two_pending_orders_paid
    by (simp add: two_pending_orders_rows balance_of_def first_row_def)
qed

subsection \<open>The balance invariant\<close>







lemma order_total_mark_paid:
  "order_total j (map (\<lambda>r. if o_customer_id r = k \<and> status r = Pending
                            then r\<lparr>status := Paid\<rparr> else r) rows) = order_total j rows"
  by (induction rows) (auto simp: order_total_def)

lemma customers_mark_paid:
  "o_customer_id ` set (map (\<lambda>r. if o_customer_id r = k \<and> status r = Pending
                            then r\<lparr>status := Paid\<rparr> else r) rows) = o_customer_id ` set rows"
  by (induction rows) auto






















end
